theory Spec2Isabelle
  imports Main
begin

section \<open>Dates and numbers of the host language\<close>

text \<open>
  A JavaScript \<open>Date\<close> holds a time value: either NaN (an "Invalid Date") or an integral
  number of milliseconds since 1970-01-01T00:00:00Z.  Numbers that may be NaN are modelled
  as \<open>int option\<close> with \<open>None\<close> for NaN.  All time values that occur are integers below
  \<open>2^53\<close> in magnitude, so the double arithmetic of the source is exact on them (a
  difference of two time values may round, but never changes its sign).
\<close>

datatype jsdate = InvalidDate | Date int

type_synonym jsnum = "int option"

datatype error = TypeError | ListingFailure

definition getTime :: "jsdate \<Rightarrow> jsnum" where
  "getTime d = (case d of InvalidDate \<Rightarrow> None | Date t \<Rightarrow> Some t)"

definition isNaN :: "jsnum \<Rightarrow> bool" where
  "isNaN n = (n = None)"

text \<open>The operator \<open>===\<close> on numbers: NaN is not equal to anything, itself included.\<close>

definition strict_eq :: "jsnum \<Rightarrow> jsnum \<Rightarrow> bool" where
  "strict_eq a b = (case (a, b) of (Some x, Some y) \<Rightarrow> x = y | _ \<Rightarrow> False)"

definition num_sub :: "jsnum \<Rightarrow> jsnum \<Rightarrow> jsnum" where
  "num_sub a b = (case (a, b) of (Some x, Some y) \<Rightarrow> Some (x - y) | _ \<Rightarrow> None)"

definition msPerDay :: int where
  "msPerDay = 86400000"

text \<open>
  Calendar fields of a day number (days since the epoch) in the proleptic Gregorian
  calendar, as \<open>YearFromTime\<close>, \<open>MonthFromTime\<close> and \<open>DateFromTime\<close> of ECMAScript
  compute them.  The month is 1-based here.
\<close>

definition civil_from_days :: "int \<Rightarrow> int \<times> int \<times> int" where
  "civil_from_days z0 =
     (let z = z0 + 719468;
          era = z div 146097;
          doe = z mod 146097;
          yoe = (doe - doe div 1460 + doe div 36524 - doe div 146096) div 365;
          y = yoe + era * 400;
          doy = doe - (365 * yoe + yoe div 4 - yoe div 100);
          mp = (5 * doy + 2) div 153;
          d = doy - (153 * mp + 2) div 5 + 1;
          m = (if mp < 10 then mp + 3 else mp - 9)
      in (if m \<le> 2 then y + 1 else y, m, d))"

text \<open>
  The local-time getters of \<open>Date\<close> read the fields of \<open>t + LocalTZA(t)\<close>, where the offset
  \<open>localTZA\<close> of the environment's time zone is a parameter of the model.  On an invalid
  date they return NaN.
\<close>

definition getFullYear :: "(int \<Rightarrow> int) \<Rightarrow> jsdate \<Rightarrow> jsnum" where
  "getFullYear localTZA d =
     (case d of InvalidDate \<Rightarrow> None
      | Date t \<Rightarrow> Some (fst (civil_from_days ((t + localTZA t) div msPerDay))))"

definition getMonth :: "(int \<Rightarrow> int) \<Rightarrow> jsdate \<Rightarrow> jsnum" where
  "getMonth localTZA d =
     (case d of InvalidDate \<Rightarrow> None
      | Date t \<Rightarrow> Some (fst (snd (civil_from_days ((t + localTZA t) div msPerDay))) - 1))"

definition getDate :: "(int \<Rightarrow> int) \<Rightarrow> jsdate \<Rightarrow> jsnum" where
  "getDate localTZA d =
     (case d of InvalidDate \<Rightarrow> None
      | Date t \<Rightarrow> Some (snd (snd (civil_from_days ((t + localTZA t) div msPerDay)))))"

section \<open>Waypoints\<close>

text \<open>
  The classes implementing \<open>Waypoint\<close>.  \<open>LeafWaypoint\<close> stands for \<open>StringWaypoint\<close> and
  \<open>ObsidianFileWaypoint\<close>, which both store an identifier (for the latter the path of its
  file, which also stands for the file that \<open>getFile\<close> returns) and a date; the date is
  \<open>None\<close> when the stored value is \<open>null\<close> or \<open>undefined\<close>, which the interface type
  \<open>time(): Date\<close> rules out but \<open>traverse\<close> tests for.  \<open>GroupWaypoint\<close> stores
  its identifier, its child nodes and the optional \<open>groupTime\<close>.
\<close>

datatype waypoint =
    LeafWaypoint string "jsdate option"
  | GroupWaypoint string "waypoint list" "jsdate option"

fun identifier_of :: "waypoint \<Rightarrow> string" where
  "identifier_of (LeafWaypoint i d) = i"
| "identifier_of (GroupWaypoint i cs g) = i"

fun isContainer :: "waypoint \<Rightarrow> bool" where
  "isContainer (LeafWaypoint i d) = False"
| "isContainer (GroupWaypoint i cs g) = True"

fun children :: "waypoint \<Rightarrow> waypoint list" where
  "children (LeafWaypoint i d) = []"
| "children (GroupWaypoint i cs g) = cs"

text \<open>
  \<open>c.time().getTime()\<close> on the result of a call of \<open>time\<close>: the call may have raised, and
  \<open>getTime\<close> on \<open>null\<close> raises a TypeError.
\<close>

definition getTimeOf :: "error + jsdate option \<Rightarrow> error + jsnum" where
  "getTimeOf r =
     (case r of Inl e \<Rightarrow> Inl e
      | Inr None \<Rightarrow> Inl TypeError
      | Inr (Some d) \<Rightarrow> Inr (getTime d))"

text \<open>\<open>Array.map\<close> with a callback that may raise: the first failure is propagated.\<close>

fun sequence :: "(error + 'a) list \<Rightarrow> error + 'a list" where
  "sequence [] = Inr []"
| "sequence (r # rs) =
     (case r of Inl e \<Rightarrow> Inl e
      | Inr x \<Rightarrow> (case sequence rs of Inl e \<Rightarrow> Inl e | Inr xs \<Rightarrow> Inr (x # xs)))"

text \<open>
  \<open>time()\<close>.  A leaf returns its stored date.  A group returns \<open>groupTime\<close> when it is set
  (every \<open>Date\<close> object is truthy, an invalid one too), otherwise the earliest valid time of
  its children, and the zero epoch when there is none.
\<close>

fun time :: "waypoint \<Rightarrow> error + jsdate option" where
  "time (LeafWaypoint i d) = Inr d"
| "time (GroupWaypoint i cs g) =
     (case g of
        Some gt \<Rightarrow> Inr (Some gt)
      | None \<Rightarrow>
          if cs \<noteq> [] then
            (case sequence (map (\<lambda>c. getTimeOf (time c)) cs) of
               Inl e \<Rightarrow> Inl e
             | Inr ts \<Rightarrow>
                 (let times = map the (filter (\<lambda>t. \<not> isNaN t) ts)
                  in Inr (Some (Date (if times \<noteq> [] then min_list times else 0)))))
          else Inr (Some (Date 0)))"

datatype direction = Past | Future

datatype filter_kind = All | Leaves | Containers

section \<open>Timewalk\<close>

text \<open>\<open>collectAllChildren\<close>: the node itself, then the nodes below each child, in order.\<close>

fun collectAllChildren :: "waypoint \<Rightarrow> waypoint list" where
  "collectAllChildren (LeafWaypoint i d) = [LeafWaypoint i d]"
| "collectAllChildren (GroupWaypoint i cs g) =
     GroupWaypoint i cs g # concat (map collectAllChildren cs)"

text \<open>The test \<open>!time || time.getTime() === 0 || isNaN(time.getTime())\<close>.\<close>

definition nonCalendar :: "jsdate option \<Rightarrow> bool" where
  "nonCalendar t =
     (case t of None \<Rightarrow> True
      | Some d \<Rightarrow> strict_eq (getTime d) (Some 0) \<or> isNaN (getTime d))"

text \<open>
  The predicate of the first \<open>filter\<close> call of \<open>traverse\<close>.  The calendar test reads
  \<open>time()\<close> of nodes that are not containers only; on a leaf that call does not raise.
\<close>

definition keep :: "filter_kind \<Rightarrow> bool \<Rightarrow> waypoint \<Rightarrow> bool" where
  "keep flt includeNonCalendar node =
     (if flt = Leaves \<and> isContainer node then False
      else if flt = Containers \<and> \<not> isContainer node then False
      else if \<not> includeNonCalendar \<and> \<not> isContainer node then
        (case node of LeafWaypoint i d \<Rightarrow> \<not> nonCalendar d | GroupWaypoint i cs g \<Rightarrow> True)
      else True)"

text \<open>
  The comparison function handed to \<open>sort\<close>, and what \<open>Array.prototype.sort\<close> makes of
  its result: a NaN counts as \<open>+0\<close>.
\<close>

definition compareFn :: "direction \<Rightarrow> jsnum \<Rightarrow> jsnum \<Rightarrow> jsnum" where
  "compareFn dir timeA timeB =
     (case dir of Past \<Rightarrow> num_sub timeB timeA | Future \<Rightarrow> num_sub timeA timeB)"

definition sortCompare :: "direction \<Rightarrow> jsnum \<Rightarrow> jsnum \<Rightarrow> int" where
  "sortCompare dir timeA timeB =
     (case compareFn dir timeA timeB of None \<Rightarrow> 0 | Some v \<Rightarrow> v)"

text \<open>
  \<open>Array.prototype.sort\<close> is stable.  For a consistent comparison function the result is
  the one stable sorted arrangement, which the insertion sort below computes; for an
  inconsistent one (possible only when some time is NaN) ECMAScript leaves the order
  to the implementation, and the insertion sort gives one admissible order.
\<close>

fun insort_by :: "('a \<Rightarrow> 'a \<Rightarrow> int) \<Rightarrow> 'a \<Rightarrow> 'a list \<Rightarrow> 'a list" where
  "insort_by c x [] = [x]"
| "insort_by c x (y # ys) = (if c x y \<le> 0 then x # y # ys else y # insort_by c x ys)"

definition sort_by :: "('a \<Rightarrow> 'a \<Rightarrow> int) \<Rightarrow> 'a list \<Rightarrow> 'a list" where
  "sort_by c xs = foldr (insort_by c) xs []"

text \<open>\<open>a.time().getTime()\<close> inside the comparison function.\<close>

definition timestamp :: "waypoint \<Rightarrow> error + jsnum" where
  "timestamp w = getTimeOf (time w)"

definition timeNum :: "waypoint \<Rightarrow> jsnum" where
  "timeNum w = (case timestamp w of Inl e \<Rightarrow> None | Inr n \<Rightarrow> n)"

text \<open>
  Sorting the surviving nodes.  The comparison function is called only when there are at
  least two elements, and then every element takes part in some comparison, so a node
  whose \<open>time().getTime()\<close> raises makes the sort raise.
\<close>

definition sortNodes :: "direction \<Rightarrow> waypoint list \<Rightarrow> error + waypoint list" where
  "sortNodes dir xs =
     (if 2 \<le> length xs \<and> list_ex (\<lambda>w. isl (timestamp w)) xs then Inl TypeError
      else Inr (sort_by (\<lambda>a b. sortCompare dir (timeNum a) (timeNum b)) xs))"

text \<open>
  \<open>traverse\<close> with its options resolved (the defaults are \<open>Past\<close>, \<open>All\<close> and \<open>False\<close>).
  The result is the sequence of nodes the callback is invoked on, in order, or the error
  raised before any callback ran.
\<close>

definition traverse :: "waypoint \<Rightarrow> direction \<Rightarrow> filter_kind \<Rightarrow> bool \<Rightarrow> error + waypoint list" where
  "traverse root dir flt includeNonCalendar =
     (let allNodes = collectAllChildren root;
          filtered = filter (keep flt includeNonCalendar) allNodes
      in sortNodes dir filtered)"

text \<open>
  \<open>navigate\<close>.  The argument is the \<open>Date\<close> obtained from \<open>targetTime\<close> (a string is first
  turned into a \<open>Date\<close>, an invalid one when it cannot be parsed).
\<close>

fun navigate_loop :: "waypoint list \<Rightarrow> jsnum \<Rightarrow> error + waypoint option" where
  "navigate_loop [] targetTimestamp = Inr None"
| "navigate_loop (node # rest) targetTimestamp =
     (if isContainer node then navigate_loop rest targetTimestamp
      else (case timestamp node of
              Inl e \<Rightarrow> Inl e
            | Inr nodeTime \<Rightarrow>
                if strict_eq nodeTime targetTimestamp then Inr (Some node)
                else navigate_loop rest targetTimestamp))"

definition navigate :: "waypoint \<Rightarrow> jsdate \<Rightarrow> error + waypoint option" where
  "navigate root target = navigate_loop (collectAllChildren root) (getTime target)"

text \<open>\<open>isSameDay\<close>; its arguments are \<open>Date\<close> objects, \<open>null\<close> is handled by the callers.\<close>

definition isSameDay :: "(int \<Rightarrow> int) \<Rightarrow> jsdate \<Rightarrow> jsdate \<Rightarrow> bool" where
  "isSameDay localTZA date1 date2 =
     (strict_eq (getFullYear localTZA date1) (getFullYear localTZA date2) \<and>
      strict_eq (getMonth localTZA date1) (getMonth localTZA date2) \<and>
      strict_eq (getDate localTZA date1) (getDate localTZA date2))"

text \<open>
  \<open>find\<close>: the filter over all nodes; reading a field of a \<open>null\<close> node time raises.
\<close>

fun find_loop :: "(int \<Rightarrow> int) \<Rightarrow> waypoint list \<Rightarrow> jsdate \<Rightarrow> error + waypoint list" where
  "find_loop localTZA [] target = Inr []"
| "find_loop localTZA (node # rest) target =
     (if isContainer node then find_loop localTZA rest target
      else (case time node of
              Inl e \<Rightarrow> Inl e
            | Inr None \<Rightarrow> Inl TypeError
            | Inr (Some nodeTime) \<Rightarrow>
                (case find_loop localTZA rest target of
                   Inl e \<Rightarrow> Inl e
                 | Inr found \<Rightarrow>
                     Inr (if isSameDay localTZA nodeTime target then node # found else found))))"

definition find_day :: "(int \<Rightarrow> int) \<Rightarrow> waypoint \<Rightarrow> jsdate \<Rightarrow> error + waypoint list" where
  "find_day localTZA root target = find_loop localTZA (collectAllChildren root) target"

section \<open>Paths of daily notes\<close>

text \<open>
  Paths are strings of code units; a \<open>char\<close> stands for a code unit below 256.
  The character classes \<open>\d\<close>, \<open>\w\<close> and \<open>\s\<close> of regular expressions.
\<close>

definition isDigit :: "char \<Rightarrow> bool" where
  "isDigit c = (let n = (of_char c :: int) in 48 \<le> n \<and> n \<le> 57)"

definition isWord :: "char \<Rightarrow> bool" where
  "isWord c =
     (let n = (of_char c :: int)
      in (48 \<le> n \<and> n \<le> 57) \<or> (65 \<le> n \<and> n \<le> 90) \<or> (97 \<le> n \<and> n \<le> 122) \<or> n = 95)"

definition isSpace :: "char \<Rightarrow> bool" where
  "isSpace c =
     (let n = (of_char c :: int)
      in n = 32 \<or> (9 \<le> n \<and> n \<le> 13) \<or> n = 160)"

definition takeDigits :: "nat \<Rightarrow> string \<Rightarrow> (string \<times> string) option" where
  "takeDigits n s =
     (if n \<le> length s \<and> list_all isDigit (take n s) then Some (take n s, drop n s) else None)"

definition expect :: "char \<Rightarrow> string \<Rightarrow> string option" where
  "expect c s = (case s of [] \<Rightarrow> None | x # rest \<Rightarrow> if x = c then Some rest else None)"

text \<open>
  A match of \<open>(\d{4})\/(\d{2})\.\s*\w+\/(\d{2})\s+\w+\<close> starting at the head of the string,
  followed by \<open>\.md$\<close> when \<open>anchored\<close>; the result holds the three captured groups.
  The classes \<open>\s\<close> and \<open>\w\<close> are disjoint and contain neither \<open>/\<close> nor \<open>.\<close>, so
  each greedy run can only succeed at its full length and no backtracking is left.
\<close>

definition matchHere :: "bool \<Rightarrow> string \<Rightarrow> (string \<times> string \<times> string) option" where
  "matchHere anchored s =
     (case takeDigits 4 s of None \<Rightarrow> None | Some (year, s1) \<Rightarrow>
      case expect (CHR ''/'') s1 of None \<Rightarrow> None | Some s2 \<Rightarrow>
      case takeDigits 2 s2 of None \<Rightarrow> None | Some (month, s3) \<Rightarrow>
      case expect (CHR ''.'') s3 of None \<Rightarrow> None | Some s4 \<Rightarrow>
      let s5 = dropWhile isSpace s4;
          word1 = takeWhile isWord s5;
          s6 = dropWhile isWord s5
      in if word1 = [] then None else
      case expect (CHR ''/'') s6 of None \<Rightarrow> None | Some s7 \<Rightarrow>
      case takeDigits 2 s7 of None \<Rightarrow> None | Some (day, s8) \<Rightarrow>
      let space2 = takeWhile isSpace s8;
          s9 = dropWhile isSpace s8;
          word2 = takeWhile isWord s9;
          s10 = dropWhile isWord s9
      in if space2 = [] \<or> word2 = [] then None
         else if anchored \<and> s10 \<noteq> ''.md'' then None
         else Some (year, month, day))"

text \<open>The leftmost match: the start positions are tried from left to right.\<close>

fun searchFrom :: "bool \<Rightarrow> string \<Rightarrow> (string \<times> string \<times> string) option" where
  "searchFrom anchored [] = matchHere anchored []"
| "searchFrom anchored (c # cs) =
     (case matchHere anchored (c # cs) of
        Some r \<Rightarrow> Some r
      | None \<Rightarrow> searchFrom anchored cs)"

text \<open>\<open>dailyNotePattern.test(file.path)\<close> and \<open>file.path.match(...)\<close>.\<close>

definition dailyNotePattern_test :: "string \<Rightarrow> bool" where
  "dailyNotePattern_test path = (searchFrom True path \<noteq> None)"

definition pathMatch :: "string \<Rightarrow> (string \<times> string \<times> string) option" where
  "pathMatch path = searchFrom False path"

text \<open>\<open>parseInt\<close> on a string of decimal digits.\<close>

definition parseInt :: "string \<Rightarrow> int" where
  "parseInt s = foldl (\<lambda>acc c. 10 * acc + (of_char c - 48)) 0 s"

text \<open>
  \<open>Date.UTC(year, month, day)\<close> after ECMAScript: \<open>DayFromYear\<close>, the days before a month
  of a year, \<open>MakeDay\<close> (a month outside \<open>0..11\<close> carries into the year, a day outside the
  month runs into the neighbouring months), \<open>TimeClip\<close>, and the rule that a year from 0
  to 99 means 1900 plus that year.
\<close>

definition isLeapYear :: "int \<Rightarrow> bool" where
  "isLeapYear y = (y mod 4 = 0 \<and> (y mod 100 \<noteq> 0 \<or> y mod 400 = 0))"

definition dayFromYear :: "int \<Rightarrow> int" where
  "dayFromYear y =
     365 * (y - 1970) + (y - 1969) div 4 - (y - 1901) div 100 + (y - 1601) div 400"

definition daysBeforeMonth :: "int \<Rightarrow> int \<Rightarrow> int" where
  "daysBeforeMonth y mn =
     [0, 31, 59, 90, 120, 151, 181, 212, 243, 273, 304, 334] ! nat mn
       + (if isLeapYear y \<and> 2 \<le> mn then 1 else 0)"

definition makeDay :: "int \<Rightarrow> int \<Rightarrow> int \<Rightarrow> int" where
  "makeDay year month dt =
     (let ym = year + month div 12;
          mn = month mod 12
      in dayFromYear ym + daysBeforeMonth ym mn + dt - 1)"

definition timeClip :: "int \<Rightarrow> jsdate" where
  "timeClip t = (if \<bar>t\<bar> > 8640000000000000 then InvalidDate else Date t)"

definition DateUTC :: "int \<Rightarrow> int \<Rightarrow> int \<Rightarrow> jsdate" where
  "DateUTC year month day =
     (let yr = (if 0 \<le> year \<and> year \<le> 99 then 1900 + year else year)
      in timeClip (makeDay yr month day * msPerDay))"

section \<open>Moments\<close>

text \<open>
  A value of the moment library is represented by the wall-clock time it displays in its
  own mode (UTC or local), in milliseconds, or it is invalid.  \<open>moment.utc(date)\<close> displays
  the time value itself, \<open>moment(date)\<close> displays the local time, and
  \<open>moment(str, "YYYY-MM-DD")\<close> displays midnight of the parsed day, and is invalid when the
  month or the day of the month is out of range.
\<close>

datatype moment = InvalidMoment | Moment int

definition moment_utc :: "jsdate option \<Rightarrow> moment" where
  "moment_utc d = (case d of Some (Date t) \<Rightarrow> Moment t | _ \<Rightarrow> InvalidMoment)"

definition moment_local :: "(int \<Rightarrow> int) \<Rightarrow> jsdate option \<Rightarrow> moment" where
  "moment_local localTZA d =
     (case d of Some (Date t) \<Rightarrow> Moment (t + localTZA t) | _ \<Rightarrow> InvalidMoment)"

definition daysInMonth :: "int \<Rightarrow> int \<Rightarrow> int" where
  "daysInMonth y m =
     (if m = 2 then (if isLeapYear y then 29 else 28)
      else if m = 4 \<or> m = 6 \<or> m = 9 \<or> m = 11 then 30 else 31)"

definition moment_parse :: "string \<Rightarrow> string \<Rightarrow> string \<Rightarrow> moment" where
  "moment_parse year month day =
     (let y = parseInt year; m = parseInt month; d = parseInt day
      in if 1 \<le> m \<and> m \<le> 12 \<and> 1 \<le> d \<and> d \<le> daysInMonth y m
         then Moment (makeDay y (m - 1) d * msPerDay)
         else InvalidMoment)"

definition isValid :: "moment \<Rightarrow> bool" where
  "isValid m = (m \<noteq> InvalidMoment)"

text \<open>The decimal digits of a number that is not negative, as \<open>'' + n\<close> gives them.\<close>

definition digitChar :: "int \<Rightarrow> char" where
  "digitChar n = ''0123456789'' ! nat n"

function digits :: "int \<Rightarrow> string" where
  "digits n = (if n < 10 then [digitChar n] else digits (n div 10) @ [digitChar (n mod 10)])"
  by pat_completeness auto
termination
  by (relation "measure nat") auto

text \<open>\<open>zeroFill\<close> of the moment library, without forced sign.\<close>

definition zeroFill :: "int \<Rightarrow> nat \<Rightarrow> string" where
  "zeroFill number targetLength =
     (let absNumber = digits \<bar>number\<bar>
      in (if number \<ge> 0 then [] else ''-'')
           @ replicate (targetLength - length absNumber) (CHR ''0'') @ absNumber)"

text \<open>\<open>format('YYYY-MM-DD')\<close>.\<close>

definition format_date :: "moment \<Rightarrow> string" where
  "format_date m =
     (case m of
        InvalidMoment \<Rightarrow> ''Invalid date''
      | Moment w \<Rightarrow>
          (case civil_from_days (w div msPerDay) of
             (y, mo, d) \<Rightarrow> zeroFill y 4 @ ''-'' @ zeroFill mo 2 @ ''-'' @ zeroFill d 2))"

text \<open>
  \<open>a.diff(b, 'days')\<close> for two moments in the same mode: the difference in days, rounded
  towards zero; NaN when one of them is invalid.
\<close>

definition absFloor :: "int \<Rightarrow> int \<Rightarrow> int" where
  "absFloor x n = (if x < 0 then - ((- x) div n) else x div n)"

definition diff_days :: "moment \<Rightarrow> moment \<Rightarrow> jsnum" where
  "diff_days a b =
     (case (a, b) of (Moment x, Moment y) \<Rightarrow> Some (absFloor (x - y) msPerDay) | _ \<Rightarrow> None)"

definition add_days :: "moment \<Rightarrow> int \<Rightarrow> moment" where
  "add_days m n = (case m of InvalidMoment \<Rightarrow> InvalidMoment | Moment w \<Rightarrow> Moment (w + n * msPerDay))"

section \<open>TimewalkService\<close>

text \<open>
  The state of the service: the root of its current \<open>Timewalk\<close> and the map from file
  paths to waypoints.  A file is represented by its path.
\<close>

record TimewalkService =
  timewalk :: waypoint
  waypointMap :: "string \<rightharpoonup> waypoint"

text \<open>
  One round of the loop of \<open>rebuild\<close> over the matching files, on the children of the new
  root and the map.
\<close>

definition addFile :: "waypoint list \<times> (string \<rightharpoonup> waypoint) \<Rightarrow> string
    \<Rightarrow> waypoint list \<times> (string \<rightharpoonup> waypoint)" where
  "addFile acc path =
     (case pathMatch path of
        None \<Rightarrow> acc
      | Some (year, month, day) \<Rightarrow>
          (let date = DateUTC (parseInt year) (parseInt month - 1) (parseInt day);
               waypoint = LeafWaypoint path (Some date)
           in (fst acc @ [waypoint], (snd acc)(path \<mapsto> waypoint))))"

text \<open>
  \<open>rebuild\<close>.  The listing is the outcome of \<open>vault.getMarkdownFiles()\<close>: the paths of the
  files, or the error it raised.  The result is the error that leaves \<open>rebuild\<close>, if any,
  and the state of the service afterwards.
\<close>

definition rebuild :: "TimewalkService \<Rightarrow> error + string list \<Rightarrow> error option \<times> TimewalkService" where
  "rebuild svc listing =
     (let svc1 = svc\<lparr>waypointMap := Map.empty\<rparr>
      in case listing of
           Inl e \<Rightarrow> (Some e, svc1)
         | Inr allFiles \<Rightarrow>
             (let matchingFiles = filter dailyNotePattern_test allFiles;
                  built = foldl addFile ([], waypointMap svc1) matchingFiles
              in (None, \<lparr>timewalk = GroupWaypoint ''daily-notes'' (fst built) None,
                         waypointMap = snd built\<rparr>)))"

text \<open>The constructor: an empty group, then \<open>rebuild\<close>.\<close>

definition newService :: "error + string list \<Rightarrow> error + TimewalkService" where
  "newService listing =
     (case rebuild \<lparr>timewalk = GroupWaypoint ''daily-notes'' [] None, waypointMap = Map.empty\<rparr> listing of
        (Some e, svc) \<Rightarrow> Inl e
      | (None, svc) \<Rightarrow> Inr svc)"

text \<open>\<open>getDailyNoteDate\<close>; \<open>None\<close> is the result \<open>null\<close>.\<close>

definition getDailyNoteDate :: "(int \<Rightarrow> int) \<Rightarrow> TimewalkService \<Rightarrow> string \<Rightarrow> moment option" where
  "getDailyNoteDate localTZA svc path =
     (case waypointMap svc path of
        Some waypoint \<Rightarrow>
          Some (moment_local localTZA (case time waypoint of Inl e \<Rightarrow> None | Inr d \<Rightarrow> d))
      | None \<Rightarrow>
          (case pathMatch path of
             Some (year, month, day) \<Rightarrow>
               (let parsedDate = moment_parse year month day
                in if isValid parsedDate then Some parsedDate else None)
           | None \<Rightarrow> None))"

text \<open>\<open>findDailyNote\<close> and \<open>hasDailyNote\<close>; the argument is \<open>date.toDate()\<close>.\<close>

definition findDailyNote :: "(int \<Rightarrow> int) \<Rightarrow> TimewalkService \<Rightarrow> jsdate \<Rightarrow> error + string option" where
  "findDailyNote localTZA svc targetDate =
     (case find_day localTZA (timewalk svc) targetDate of
        Inl e \<Rightarrow> Inl e
      | Inr results \<Rightarrow> Inr (case results of [] \<Rightarrow> None | waypoint # rest \<Rightarrow> Some (identifier_of waypoint)))"

text \<open>
  \<open>getSortedWaypoints\<close>: the leaves oldest first, and \<open>findIndex\<close> of the first one on the
  same day as \<open>currentDate.toDate()\<close>, which is the argument here; \<open>-1\<close> when there is none.
\<close>

fun findIndex_loop :: "(int \<Rightarrow> int) \<Rightarrow> jsdate \<Rightarrow> waypoint list \<Rightarrow> int \<Rightarrow> error + int" where
  "findIndex_loop localTZA d [] i = Inr (- 1)"
| "findIndex_loop localTZA d (wp # rest) i =
     (case time wp of
        Inl e \<Rightarrow> Inl e
      | Inr None \<Rightarrow> Inl TypeError
      | Inr (Some t) \<Rightarrow>
          if isSameDay localTZA t d then Inr i else findIndex_loop localTZA d rest (i + 1))"

definition getSortedWaypoints :: "(int \<Rightarrow> int) \<Rightarrow> TimewalkService \<Rightarrow> jsdate
    \<Rightarrow> error + (waypoint list \<times> int)" where
  "getSortedWaypoints localTZA svc currentDate =
     (case traverse (timewalk svc) Future Leaves False of
        Inl e \<Rightarrow> Inl e
      | Inr waypoints \<Rightarrow>
          (case findIndex_loop localTZA currentDate waypoints 0 of
             Inl e \<Rightarrow> Inl e
           | Inr currentIndex \<Rightarrow> Inr (waypoints, currentIndex)))"

definition getPreviousDailyNote :: "(int \<Rightarrow> int) \<Rightarrow> TimewalkService \<Rightarrow> jsdate \<Rightarrow> error + string option" where
  "getPreviousDailyNote localTZA svc currentDate =
     (case getSortedWaypoints localTZA svc currentDate of
        Inl e \<Rightarrow> Inl e
      | Inr (waypoints, currentIndex) \<Rightarrow>
          Inr (if currentIndex > 0
               then Some (identifier_of (waypoints ! nat (currentIndex - 1)))
               else None))"

definition getNextDailyNote :: "(int \<Rightarrow> int) \<Rightarrow> TimewalkService \<Rightarrow> jsdate \<Rightarrow> error + string option" where
  "getNextDailyNote localTZA svc currentDate =
     (case getSortedWaypoints localTZA svc currentDate of
        Inl e \<Rightarrow> Inl e
      | Inr (waypoints, currentIndex) \<Rightarrow>
          Inr (if currentIndex \<noteq> - 1 \<and> currentIndex < int (length waypoints) - 1
               then Some (identifier_of (waypoints ! nat (currentIndex + 1)))
               else None))"

section \<open>The global timeline\<close>

datatype item_type = Note | Gap

record GlobalNavItem =
  item_type :: item_type
  date :: moment
  item_file :: "string option"
  gapCount :: "int option"
  isActive :: "bool option"
  isCurrent :: "bool option"

text \<open>The body of the loop of \<open>buildGlobalTimeline\<close> for one waypoint and those after it.\<close>

fun timeline_loop :: "moment \<Rightarrow> moment \<Rightarrow> waypoint list \<Rightarrow> GlobalNavItem list" where
  "timeline_loop activeDate currentDate [] = []"
| "timeline_loop activeDate currentDate (waypoint # rest) =
     (let waypointDate = moment_utc (case time waypoint of Inl e \<Rightarrow> None | Inr d \<Rightarrow> d);
          noteItem = \<lparr>item_type = Note, date = waypointDate,
                      item_file = Some (identifier_of waypoint), gapCount = None,
                      isActive = Some (format_date waypointDate = format_date activeDate),
                      isCurrent = Some (format_date waypointDate = format_date currentDate)\<rparr>;
          gapItems =
            (case rest of
               [] \<Rightarrow> []
             | nextWaypoint # later \<Rightarrow>
                 (let nextDate = moment_utc (case time nextWaypoint of Inl e \<Rightarrow> None | Inr d \<Rightarrow> d);
                      daysBetween = num_sub (diff_days nextDate waypointDate) (Some 1)
                  in (case daysBetween of
                        None \<Rightarrow> []
                      | Some n \<Rightarrow>
                          if n > 0
                          then [\<lparr>item_type = Gap, date = add_days waypointDate 1,
                                 item_file = None, gapCount = Some n,
                                 isActive = None, isCurrent = None\<rparr>]
                          else [])))
      in noteItem # gapItems @ timeline_loop activeDate currentDate rest)"

definition buildGlobalTimeline :: "TimewalkService \<Rightarrow> moment \<Rightarrow> moment \<Rightarrow> error + GlobalNavItem list" where
  "buildGlobalTimeline timewalkService activeDate currentDate =
     (case traverse (timewalk timewalkService) Future Leaves False of
        Inl e \<Rightarrow> Inl e
      | Inr waypoints \<Rightarrow>
          Inr (if waypoints = [] then [] else timeline_loop activeDate currentDate waypoints))"

section \<open>Notions used in the statements\<close>

text \<open>A node whose \<open>time().getTime()\<close> is a number, and that number.\<close>

definition validTime :: "waypoint \<Rightarrow> bool" where
  "validTime w = (case timestamp w of Inr (Some t) \<Rightarrow> True | _ \<Rightarrow> False)"

definition msOf :: "waypoint \<Rightarrow> int" where
  "msOf w = the (timeNum w)"

text \<open>The operator \<open><=\<close> on numbers: false when an operand is NaN.\<close>

definition num_le :: "jsnum \<Rightarrow> jsnum \<Rightarrow> bool" where
  "num_le a b = (case (a, b) of (Some x, Some y) \<Rightarrow> x \<le> y | _ \<Rightarrow> False)"

definition nonDecreasing :: "waypoint list \<Rightarrow> bool" where
  "nonDecreasing ws = sorted_wrt (\<lambda>a b. num_le (timeNum a) (timeNum b)) ws"

definition nonIncreasing :: "waypoint list \<Rightarrow> bool" where
  "nonIncreasing ws = sorted_wrt (\<lambda>a b. num_le (timeNum b) (timeNum a)) ws"

text \<open>No two nodes of the list have the same millisecond time.\<close>

definition noTies :: "waypoint list \<Rightarrow> bool" where
  "noTies ws = sorted_wrt (\<lambda>a b. \<not> strict_eq (timeNum a) (timeNum b)) ws"

text \<open>The leaves that survive the filter of \<open>traverse\<close>, in flattening order.\<close>

definition survivors :: "waypoint \<Rightarrow> bool \<Rightarrow> waypoint list" where
  "survivors root includeNonCalendar =
     filter (keep Leaves includeNonCalendar) (collectAllChildren root)"

text \<open>A leaf on the same local calendar day as the target.\<close>

definition matchesDay :: "(int \<Rightarrow> int) \<Rightarrow> jsdate \<Rightarrow> waypoint \<Rightarrow> bool" where
  "matchesDay localTZA target n =
     (\<not> isContainer n \<and>
      (case time n of Inr (Some t) \<Rightarrow> isSameDay localTZA t target | _ \<Rightarrow> False))"

text \<open>
  A graph that respects the type \<open>time(): Date\<close> of the interface: no leaf returns
  \<open>null\<close> or \<open>undefined\<close> as its time.
\<close>

definition typed :: "waypoint \<Rightarrow> bool" where
  "typed root = list_all (\<lambda>n. isContainer n \<or> time n \<noteq> Inr None) (collectAllChildren root)"

text \<open>An environment whose local time is UTC.\<close>

definition utcZone :: "int \<Rightarrow> int" where
  "utcZone t = 0"

text \<open>Example graphs.\<close>

definition exampleMixed :: waypoint where
  "exampleMixed =
     GroupWaypoint ''root''
       [LeafWaypoint ''a'' (Some (Date 5)), LeafWaypoint ''b'' (Some InvalidDate)] None"

definition exampleEpoch :: waypoint where
  "exampleEpoch = GroupWaypoint ''root'' [LeafWaypoint ''a'' (Some (Date 0))] None"

definition exampleNested :: waypoint where
  "exampleNested =
     GroupWaypoint ''root''
       [GroupWaypoint ''empty'' [] None,
        GroupWaypoint ''week'' [LeafWaypoint ''b'' (Some (Date 7)), LeafWaypoint ''a'' (Some (Date 5)),
                               LeafWaypoint ''c'' (Some (Date 9))] (Some InvalidDate)] None"

text \<open>
  The leaf that \<open>rebuild\<close> makes of a path: the captured groups of the first match, handed
  to \<open>Date.UTC\<close>.
\<close>

definition leafOf :: "string \<Rightarrow> waypoint option" where
  "leafOf path =
     (case pathMatch path of
        None \<Rightarrow> None
      | Some (year, month, day) \<Rightarrow>
          Some (LeafWaypoint path
                  (Some (DateUTC (parseInt year) (parseInt month - 1) (parseInt day)))))"

text \<open>
  Reading a timeline as a sequence of calendar days (numbered from the epoch): a note
  stands for one day, a gap for \<open>gapCount\<close> days.  \<open>spans d items\<close> lists the days the
  items stand for, in order, when the first item starts at day \<open>d\<close>; \<open>aligned d items\<close>
  says that each item is dated at midnight of the first day it stands for.
\<close>

definition isNote :: "GlobalNavItem \<Rightarrow> bool" where
  "isNote it = (item_type it = Note)"

definition dayOf :: "moment \<Rightarrow> int" where
  "dayOf m = (case m of InvalidMoment \<Rightarrow> 0 | Moment w \<Rightarrow> w div msPerDay)"

definition width :: "GlobalNavItem \<Rightarrow> int" where
  "width it = (case item_type it of Note \<Rightarrow> 1
               | Gap \<Rightarrow> (case gapCount it of None \<Rightarrow> 0 | Some n \<Rightarrow> n))"

fun spans :: "int \<Rightarrow> GlobalNavItem list \<Rightarrow> int list" where
  "spans d [] = []"
| "spans d (it # its) = [d .. d + width it - 1] @ spans (d + width it) its"

fun aligned :: "int \<Rightarrow> GlobalNavItem list \<Rightarrow> bool" where
  "aligned d [] = True"
| "aligned d (it # its) = (date it = Moment (d * msPerDay) \<and> aligned (d + width it) its)"

text \<open>
  \<open>coversRange\<close>: the items stand for the days from the first note's date through the last
  note's date, each once and in order.  \<open>noOuterGap\<close>: no gap comes before the first or
  after the last note.
\<close>

definition firstNoteDay :: "GlobalNavItem list \<Rightarrow> int" where
  "firstNoteDay items = dayOf (date (hd (filter isNote items)))"

definition lastNoteDay :: "GlobalNavItem list \<Rightarrow> int" where
  "lastNoteDay items = dayOf (date (last (filter isNote items)))"

definition coversRange :: "GlobalNavItem list \<Rightarrow> bool" where
  "coversRange items = (spans (firstNoteDay items) items = [firstNoteDay items .. lastNoteDay items])"

definition noOuterGap :: "GlobalNavItem list \<Rightarrow> bool" where
  "noOuterGap items = (items \<noteq> [] \<and> isNote (hd items) \<and> isNote (last items))"

text \<open>A leaf dated at midnight UTC of some day, and the number of that day.\<close>

definition midnight :: "waypoint \<Rightarrow> bool" where
  "midnight w = (case w of LeafWaypoint p (Some (Date t)) \<Rightarrow> t mod msPerDay = 0 | _ \<Rightarrow> False)"

definition dayNum :: "waypoint \<Rightarrow> int" where
  "dayNum w = msOf w div msPerDay"

text \<open>The items that the loop of \<open>buildGlobalTimeline\<close> emits for leaves dated at midnight.\<close>

definition noteOf :: "moment \<Rightarrow> moment \<Rightarrow> waypoint \<Rightarrow> GlobalNavItem" where
  "noteOf a c w =
     \<lparr>item_type = Note, date = Moment (dayNum w * msPerDay),
      item_file = Some (identifier_of w), gapCount = None,
      isActive = Some (format_date (Moment (dayNum w * msPerDay)) = format_date a),
      isCurrent = Some (format_date (Moment (dayNum w * msPerDay)) = format_date c)\<rparr>"

definition gapOf :: "int \<Rightarrow> int \<Rightarrow> GlobalNavItem" where
  "gapOf k n = \<lparr>item_type = Gap, date = Moment (k * msPerDay), item_file = None,
                gapCount = Some n, isActive = None, isCurrent = None\<rparr>"

text \<open>Example services, and an environment five hours west of UTC.\<close>

definition emptyService :: TimewalkService where
  "emptyService = \<lparr>timewalk = GroupWaypoint ''daily-notes'' [] None, waypointMap = Map.empty\<rparr>"

definition janFiles :: "string list" where
  "janFiles = [''2025/01. Jan/05 Sun.md'', ''2025/01. Jan/01 Wed.md'', ''2025/01. Jan/02 Thu.md'']"

definition janService :: TimewalkService where
  "janService = snd (rebuild emptyService (Inr janFiles))"

definition jan01 :: waypoint where
  "jan01 = LeafWaypoint ''2025/01. Jan/01 Wed.md'' (Some (Date 1735689600000))"
definition jan02 :: waypoint where
  "jan02 = LeafWaypoint ''2025/01. Jan/02 Thu.md'' (Some (Date 1735776000000))"
definition jan05 :: waypoint where
  "jan05 = LeafWaypoint ''2025/01. Jan/05 Sun.md'' (Some (Date 1736035200000))"

definition dupFiles :: "string list" where
  "dupFiles = [''a/2025/01. Jan/02 Thu.md'', ''b/2025/01. Jan/02 Thu.md'']"

definition dupService :: TimewalkService where
  "dupService = snd (rebuild emptyService (Inr dupFiles))"

definition dupA :: waypoint where
  "dupA = LeafWaypoint ''a/2025/01. Jan/02 Thu.md'' (Some (Date 1735776000000))"
definition dupB :: waypoint where
  "dupB = LeafWaypoint ''b/2025/01. Jan/02 Thu.md'' (Some (Date 1735776000000))"

definition oddFiles :: "string list" where
  "oddFiles = [''0025/03. Mar/07 Fri.md'', ''2025/02. Feb/30 Sun.md'']"

definition oddService :: TimewalkService where
  "oddService = snd (rebuild emptyService (Inr oddFiles))"

definition marFiles :: "string list" where
  "marFiles = [''2025/03. Mar/07 Fri.md'', ''notes/random.md'']"

definition marService :: TimewalkService where
  "marService = snd (rebuild emptyService (Inr marFiles))"

definition westZone :: "int \<Rightarrow> int" where
  "westZone t = - 18000000"

text \<open>
  Captured groups that denote a date of the calendar with a year of at least 100, and the
  time value of midnight UTC of that date.
\<close>

definition validCapture :: "string \<times> string \<times> string \<Rightarrow> bool" where
  "validCapture cap =
     (case cap of (year, month, day) \<Rightarrow>
        100 \<le> parseInt year \<and> 1 \<le> parseInt month \<and> parseInt month \<le> 12 \<and>
        1 \<le> parseInt day \<and> parseInt day \<le> daysInMonth (parseInt year) (parseInt month))"

definition midnightOf :: "string \<times> string \<times> string \<Rightarrow> int" where
  "midnightOf cap =
     (case cap of (year, month, day) \<Rightarrow>
        makeDay (parseInt year) (parseInt month - 1) (parseInt day) * msPerDay)"

text \<open>
  Auxiliary notions of the calendar: the number of leap years from year 1 through year
  \<open>n\<close>, and the month and year of a date when years are counted from the first of March.
\<close>

definition leapsUpTo :: "int \<Rightarrow> int" where
  "leapsUpTo n = n div 4 - n div 100 + n div 400"

definition marchMonth :: "int \<Rightarrow> int" where
  "marchMonth m = (if m > 2 then m - 3 else m + 9)"

definition marchYear :: "int \<Rightarrow> int \<Rightarrow> int" where
  "marchYear y m = (if m \<le> 2 then y - 1 else y)"

section \<open>Properties of the calendar\<close>

text \<open>
  The day number that \<open>Date.UTC\<close> computes for a calendar date and the calendar fields
  that the getters and \<open>format\<close> read off a day number are inverse to each other.
\<close>

lemma div_between:
  fixes x k q :: int
  assumes "k * q \<le> x" "x < k * q + k"
  shows "x div k = q"
proof -
  have "x = k * q + (x - k * q)" by simp
  moreover have "0 \<le> x - k * q" "x - k * q < k" using assms by simp_all
  ultimately show ?thesis by (rule int_div_pos_eq)
qed

lemma yoe_recover:
  fixes c a b doy :: int
  assumes c: "0 \<le> c" "c \<le> 3" and a: "0 \<le> a" "a \<le> 24" and b: "0 \<le> b" "b \<le> 3"
    and d0: "0 \<le> doy"
    and d1: "doy \<le> 364 + (if b = 3 \<and> (a \<noteq> 24 \<or> c = 3) then 1 else 0)"
    and doe: "doe = 36524 * c + 1461 * a + 365 * b + doy"
  shows "(doe - doe div 1460 + doe div 36524 - doe div 146096) div 365 = 100 * c + 4 * a + b"
proof -
  define e :: int where "e = (if 24 * c + a + 365 * b + doy \<ge> 1460 then 1 else 0)"
  have d365: "doy \<le> 365" using d1 by (simp split: if_splits)
  have q1: "doe div 1460 = 25 * c + a + e"
    using c a b d0 d365 unfolding e_def doe by (intro div_between) (auto split: if_splits)
  have q23: "doe div 36524 - doe div 146096 = c"
  proof (cases "doe = 146096")
    case True
    then have "c = 3" using c a b d0 d365 doe by linarith
    moreover have "doe div 36524 = 4" "doe div 146096 = 1" using True by simp_all
    ultimately show ?thesis by simp
  next
    case False
    have le: "doe \<le> 146096" using c a b d365 doe by linarith
    have top: "1461 * a + 365 * b + doy < 36524"
    proof (rule ccontr)
      assume "\<not> ?thesis"
      then have eq: "a = 24" "b = 3" "doy = 365" using a b d365 by linarith+
      with d1 have "c = 3" by (simp split: if_splits)
      with eq doe False show False by simp
    qed
    have "doe div 36524 = c"
      using top a b d0 unfolding doe by (intro div_between) auto
    moreover have "doe div 146096 = 0"
      using le False c a b d0 doe by (intro div_between) auto
    ultimately show ?thesis by simp
  qed
  have r: "0 \<le> doy - e" "doy - e < 365"
  proof -
    show "0 \<le> doy - e" using c a b d0 unfolding e_def by (auto split: if_splits)
    show "doy - e < 365"
    proof (cases "doy = 365")
      case True
      with d1 have "b = 3" by (simp split: if_splits)
      with True c a have "e = 1" unfolding e_def by auto
      with True show ?thesis by simp
    next
      case False
      with d365 show ?thesis unfolding e_def by (auto split: if_splits)
    qed
  qed
  have "doe - doe div 1460 + doe div 36524 - doe div 146096
          = doe - doe div 1460 + (doe div 36524 - doe div 146096)" by simp
  also have "\<dots> = doe - (25 * c + a + e) + c"
    by (simp only: q1 q23)
  also have "\<dots> = 365 * (100 * c + 4 * a + b) + (doy - e)"
    by (simp add: doe)
  finally show ?thesis
    using r by (intro div_between) auto
qed

lemma div_step:
  fixes y k :: int
  assumes "0 < k"
  shows "y div k = (y - 1) div k + (if y mod k = 0 then 1 else 0)"
proof (cases "y mod k = 0")
  case True
  have "y = k * (y div k) + y mod k" by simp
  with True have y: "y = k * (y div k)" by simp
  have "(y - 1) div k = y div k - 1"
  proof (rule div_between)
    have "k * (y div k - 1) = y - k" using y by (simp add: right_diff_distrib)
    then show "k * (y div k - 1) \<le> y - 1" "y - 1 < k * (y div k - 1) + k"
      using assms by linarith+
  qed
  with True show ?thesis by simp
next
  case False
  have y: "y = k * (y div k) + y mod k" by simp
  have "0 \<le> y mod k" "y mod k < k" using assms by simp_all
  with False have r: "1 \<le> y mod k" by simp
  have "(y - 1) div k = y div k"
  proof (rule div_between)
    show "k * (y div k) \<le> y - 1" using y r by linarith
    show "y - 1 < k * (y div k) + k" using y \<open>y mod k < k\<close> by linarith
  qed
  with False show ?thesis by simp
qed

lemma div_shift:
  fixes a k c :: int
  assumes "k \<noteq> 0"
  shows "(a - c * k) div k = a div k - c"
proof -
  have "(a - c * k) div k = (a + (- c) * k) div k" by simp
  also have "\<dots> = - c + a div k" using assms by (rule div_mult_self1)
  finally show ?thesis by simp
qed

lemma dayFromYear_leaps: "dayFromYear y = 365 * y + leapsUpTo (y - 1) - 719527"
proof -
  define x where "x = y - 1"
  define A B C where "A = x div 4" and "B = x div 100" and "C = x div 400"
  have "(x - 492 * 4) div 4 = A - 492" unfolding A_def by (rule div_shift) simp
  moreover have "y - 1969 = x - 492 * 4" by (simp add: x_def)
  ultimately have a: "(y - 1969) div 4 = A - 492" by (simp only:)
  have "(x - 19 * 100) div 100 = B - 19" unfolding B_def by (rule div_shift) simp
  moreover have "y - 1901 = x - 19 * 100" by (simp add: x_def)
  ultimately have b: "(y - 1901) div 100 = B - 19" by (simp only:)
  have "(x - 4 * 400) div 400 = C - 4" unfolding C_def by (rule div_shift) simp
  moreover have "y - 1601 = x - 4 * 400" by (simp add: x_def)
  ultimately have c: "(y - 1601) div 400 = C - 4" by (simp only:)
  have l: "leapsUpTo (y - 1) = A - B + C"
    by (simp only: leapsUpTo_def A_def B_def C_def x_def)
  show ?thesis
    unfolding dayFromYear_def a b c l by simp
qed

lemma mod_400_100: "(y::int) mod 400 = 0 \<Longrightarrow> y mod 100 = 0"
  using mod_mod_cancel[of 100 400 y] by simp
lemma mod_100_4: "(y::int) mod 100 = 0 \<Longrightarrow> y mod 4 = 0"
    using mod_mod_cancel[of 4 100 y] by simp

lemma leapsUpTo_step: "leapsUpTo y = leapsUpTo (y - 1) + (if isLeapYear y then 1 else 0)"
proof -
  define A A' B B' C C' where "A = y div 4" and "A' = (y - 1) div 4"
    and "B = y div 100" and "B' = (y - 1) div 100"
    and "C = y div 400" and "C' = (y - 1) div 400"
  have s4: "A = A' + (if y mod 4 = 0 then 1 else 0)"
    unfolding A_def A'_def by (rule div_step) simp
  have s100: "B = B' + (if y mod 100 = 0 then 1 else 0)"
    unfolding B_def B'_def by (rule div_step) simp
  have s400: "C = C' + (if y mod 400 = 0 then 1 else 0)"
    unfolding C_def C'_def by (rule div_step) simp
  have l: "leapsUpTo y = A - B + C" "leapsUpTo (y - 1) = A' - B' + C'"
    by (simp_all only: leapsUpTo_def A_def A'_def B_def B'_def C_def C'_def)
  have i: "isLeapYear y = (y mod 4 = 0 \<and> (y mod 100 \<noteq> 0 \<or> y mod 400 = 0))"
    by (simp only: isLeapYear_def)
  show ?thesis
    unfolding l i using s4 s100 s400 mod_400_100[of y] mod_100_4[of y]
    by (cases "y mod 4 = 0"; cases "y mod 100 = 0"; cases "y mod 400 = 0") simp_all
qed

lemma leapsUpTo_era:
  "leapsUpTo y = 97 * (y div 400) + (y mod 400) div 4 - (y mod 400) div 100"
proof -
  define e r where "e = y div 400" and "r = y mod 400"
  have y: "y = r + e * 400" by (simp add: e_def r_def)
  have r: "0 \<le> r" "r < 400" by (simp_all add: r_def)
  have "y div 4 = (r + (100 * e) * 4) div 4" by (simp add: y)
  also have "\<dots> = 100 * e + r div 4" by (rule div_mult_self1) simp
  finally have d4: "y div 4 = 100 * e + r div 4" .
  have "y div 100 = (r + (4 * e) * 100) div 100" by (simp add: y)
  also have "\<dots> = 4 * e + r div 100" by (rule div_mult_self1) simp
  finally have d100: "y div 100 = 4 * e + r div 100" .
  have d400: "y div 400 = e" by (simp add: e_def)
  show ?thesis
    unfolding leapsUpTo_def d4 d100 d400 e_def[symmetric] r_def[symmetric] by simp
qed

lemma month_cases:
  fixes m :: int
  assumes "1 \<le> m" "m \<le> 12"
  shows "m = 1 \<or> m = 2 \<or> m = 3 \<or> m = 4 \<or> m = 5 \<or> m = 6 \<or> m = 7 \<or> m = 8 \<or> m = 9
         \<or> m = 10 \<or> m = 11 \<or> m = 12"
  using assms by arith

lemma makeDay_march:
  assumes "1 \<le> m" "m \<le> 12"
  shows "makeDay y (m - 1) d =
           365 * marchYear y m + leapsUpTo (marchYear y m)
             + ((153 * marchMonth m + 2) div 5 + d - 1) - 719468"
proof -
  have md: "0 \<le> mn \<Longrightarrow> mn \<le> 11
      \<Longrightarrow> makeDay y mn d = dayFromYear y + daysBeforeMonth y mn + d - 1" for mn
    by (simp add: makeDay_def Let_def)
  define L where "L = leapsUpTo (y - 1)"
  have dy: "dayFromYear y = 365 * y + L - 719527" by (simp add: dayFromYear_leaps L_def)
  have ly: "leapsUpTo y = L + (if isLeapYear y then 1 else 0)"
    by (simp only: L_def leapsUpTo_step[of y])
  from month_cases[OF assms] show ?thesis
    by (elim disjE) (simp_all add: md dy ly marchYear_def marchMonth_def daysBeforeMonth_def L_def)
qed

lemma civil_from_days_eval:
  assumes z: "z0 + 719468 = 146097 * e + doe" and doe: "0 \<le> doe" "doe < 146097"
    and yoe: "(doe - doe div 1460 + doe div 36524 - doe div 146096) div 365 = r"
    and doy: "doe - (365 * r + r div 4 - r div 100) = doy"
    and mp: "(5 * doy + 2) div 153 = mp"
  shows "civil_from_days z0 =
           (if (if mp < 10 then mp + 3 else mp - 9) \<le> 2 then r + e * 400 + 1 else r + e * 400,
            if mp < 10 then mp + 3 else mp - 9,
            doy - (153 * mp + 2) div 5 + 1)"
proof -
  have q: "(z0 + 719468) div 146097 = e"
    using z doe by (intro div_between) simp_all
  have "(z0 + 719468) mod 146097 = (z0 + 719468) - 146097 * ((z0 + 719468) div 146097)"
    by (simp add: minus_mult_div_eq_mod)
  also have "\<dots> = doe" unfolding q using z by simp
  finally have m: "(z0 + 719468) mod 146097 = doe" .
  show ?thesis
    unfolding civil_from_days_def Let_def
    by (simp only: q m yoe doy mp)
qed

lemma march_digits:
  fixes r :: int
  assumes "0 \<le> r" "r < 400"
  defines "c \<equiv> r div 100" and "a \<equiv> (r mod 100) div 4" and "b \<equiv> r mod 4"
  shows "r = 100 * c + 4 * a + b" "0 \<le> c" "c \<le> 3" "0 \<le> a" "a \<le> 24" "0 \<le> b" "b \<le> 3"
        "r div 4 = 25 * c + a"
proof -
  define t where "t = r mod 100"
  have t: "0 \<le> t" "t < 100" by (simp_all add: t_def)
  have r: "r = 100 * c + t" by (simp add: c_def t_def)
  have tt: "t = 4 * a + t mod 4" by (simp add: a_def t_def)
  have "t mod 4 = r mod 4"
    using mod_mod_cancel[of 4 100 r] by (simp add: t_def)
  then have tb: "t = 4 * a + b" using tt by (simp add: b_def)
  show "r = 100 * c + 4 * a + b" using r tb by simp
  show "0 \<le> c" "c \<le> 3" using assms(1,2) by (simp_all add: c_def)
  show "0 \<le> a" "a \<le> 24" using t by (simp_all add: a_def t_def[symmetric])
  show "0 \<le> b" "b \<le> 3" by (simp_all add: b_def)
  have "0 \<le> b" "b < 4" by (simp_all add: b_def)
  then show "r div 4 = 25 * c + a"
    using r tb by (intro div_between) simp_all
qed

lemma mod_small:
  fixes x k q :: int
  assumes "x = t + q * k" "0 \<le> t" "t < k"
  shows "x mod k = t"
proof -
  have "x mod k = t mod k" unfolding assms(1) by simp
  then show ?thesis using assms(2,3) by simp
qed

lemma isLeapYear_march:
  fixes e c a b :: int
  assumes "0 \<le> c" "c \<le> 3" "0 \<le> a" "a \<le> 24" "0 \<le> b" "b \<le> 3"
    and "Y = 400 * e + (100 * c + 4 * a + b)"
  shows "isLeapYear (Y + 1) \<longleftrightarrow> b = 3 \<and> (a \<noteq> 24 \<or> c = 3)"
proof (cases "b = 3")
  case False
  have "(Y + 1) mod 4 = b + 1"
    using assms False by (intro mod_small[where q = "100 * e + 25 * c + a"]) simp_all
  with False assms show ?thesis by (simp add: isLeapYear_def)
next
  case b3: True
  have m4: "(Y + 1) mod 4 = 0"
    using assms b3 by (intro mod_small[where q = "100 * e + 25 * c + a + 1"]) simp_all
  show ?thesis
  proof (cases "a = 24")
    case False
    have "(Y + 1) mod 100 = 4 * a + 4"
      using assms b3 False by (intro mod_small[where q = "4 * e + c"]) simp_all
    with False b3 m4 assms show ?thesis by (simp add: isLeapYear_def)
  next
    case a24: True
    have m100: "(Y + 1) mod 100 = 0"
      using assms b3 a24 by (intro mod_small[where q = "4 * e + c + 1"]) simp_all
    show ?thesis
    proof (cases "c = 3")
      case True
      have "(Y + 1) mod 400 = 0"
        using assms b3 a24 True by (intro mod_small[where q = "e + 1"]) simp_all
      with True b3 a24 m4 m100 show ?thesis by (simp add: isLeapYear_def)
    next
      case False
      have "(Y + 1) mod 400 = 100 * c + 100"
        using assms b3 a24 False by (intro mod_small[where q = "e"]) simp_all
      with False b3 a24 m4 m100 assms show ?thesis by (simp add: isLeapYear_def)
    qed
  qed
qed

lemma march_month_recover:
  assumes "1 \<le> m" "m \<le> 12" "1 \<le> d" "d \<le> daysInMonth y m"
  shows "(5 * ((153 * marchMonth m + 2) div 5 + d - 1) + 2) div 153 = marchMonth m"
  using month_cases[OF assms(1,2)] assms(3,4)
  by (elim disjE)
     (simp_all add: marchMonth_def daysInMonth_def div_between split: if_splits)

lemma march_month_back:
  assumes "1 \<le> m" "m \<le> 12"
  shows "(if marchMonth m < 10 then marchMonth m + 3 else marchMonth m - 9) = m"
  using assms by (simp add: marchMonth_def)

lemma march_doy_bound:
  assumes "1 \<le> m" "m \<le> 12" "1 \<le> d" "d \<le> daysInMonth y m"
  shows "0 \<le> (153 * marchMonth m + 2) div 5 + d - 1"
    and "(153 * marchMonth m + 2) div 5 + d - 1
           \<le> 364 + (if isLeapYear (marchYear y m + 1) then 1 else 0)"
  using month_cases[OF assms(1,2)] assms(3,4)
  by (elim disjE; simp add: marchMonth_def marchYear_def daysInMonth_def split: if_splits)+

text \<open>
  A valid date of the proleptic Gregorian calendar is read back from its day number.
\<close>

lemma civil_from_days_makeDay:
  assumes m: "1 \<le> m" "m \<le> 12" and d: "1 \<le> d" "d \<le> daysInMonth y m"
  shows "civil_from_days (makeDay y (m - 1) d) = (y, m, d)"
proof -
  define Y where "Y = marchYear y m"
  define mp where "mp = marchMonth m"
  define e where "e = Y div 400"
  define r where "r = Y mod 400"
  define c where "c = r div 100"
  define a where "a = (r mod 100) div 4"
  define b where "b = r mod 4"
  define doy where "doy = (153 * mp + 2) div 5 + d - 1"
  define doe where "doe = 36524 * c + 1461 * a + 365 * b + doy"
  have r: "0 \<le> r" "r < 400" by (simp_all add: r_def)
  note dig = march_digits[OF r, folded c_def a_def b_def]
  have Yr: "Y = 400 * e + r" by (simp add: e_def r_def)
  have Y: "Y = 400 * e + (100 * c + 4 * a + b)"
    using Yr dig(1) by simp
  have leap: "isLeapYear (Y + 1) \<longleftrightarrow> b = 3 \<and> (a \<noteq> 24 \<or> c = 3)"
    using dig(2-7) Y by (rule isLeapYear_march)
  have doy0: "0 \<le> doy"
    and doy1: "doy \<le> 364 + (if b = 3 \<and> (a \<noteq> 24 \<or> c = 3) then 1 else 0)"
    using march_doy_bound[OF m d] leap by (simp_all add: doy_def mp_def Y_def)
  have doy365: "doy \<le> 365" using doy1 by (simp split: if_splits)
  have r4: "r div 4 = 25 * c + a" by (rule dig(8))
  have r100: "r div 100 = c" by (simp add: c_def)
  have "leapsUpTo Y = 97 * e + r div 4 - r div 100"
    by (simp only: leapsUpTo_era e_def r_def)
  then have lY: "leapsUpTo Y = 97 * e + 24 * c + a" by (simp add: r4 r100)
  have "makeDay y (m - 1) d = 365 * Y + leapsUpTo Y + doy - 719468"
    using makeDay_march[OF m, of y d] by (simp add: Y_def doy_def mp_def)
  then have z: "makeDay y (m - 1) d + 719468 = 146097 * e + doe"
    using lY Y by (simp add: doe_def)
  have doe0: "0 \<le> doe" using dig(2-7) doy0 by (simp add: doe_def)
  have doe1: "doe < 146097" using dig(2-7) doy365 by (simp add: doe_def)
  have yoe: "(doe - doe div 1460 + doe div 36524 - doe div 146096) div 365 = r"
    using yoe_recover[OF dig(2-7) doy0 doy1 doe_def] dig(1) by simp
  have "doe - (365 * r + r div 4 - r div 100) = doe - (365 * r + (25 * c + a) - c)"
    by (simp only: r4 r100)
  also have "\<dots> = doy"
    by (subst dig(1)) (simp add: doe_def)
  finally have dd: "doe - (365 * r + r div 4 - r div 100) = doy" .
  have mm: "(5 * doy + 2) div 153 = mp"
    using march_month_recover[OF m d] by (simp add: doy_def mp_def)
  have month_eq: "(if mp < 10 then mp + 3 else mp - 9) = m"
    unfolding mp_def by (rule march_month_back[OF m])
  have yy: "(if m \<le> 2 then r + e * 400 + 1 else r + e * 400) = y"
  proof (cases "m \<le> 2")
    case True
    then have "y - 1 = 400 * e + r" using Yr by (simp add: Y_def marchYear_def)
    with True show ?thesis by simp
  next
    case False
    then have "y = 400 * e + r" using Yr by (simp add: Y_def marchYear_def)
    with False show ?thesis by simp
  qed
  have "civil_from_days (makeDay y (m - 1) d) =
          (if (if mp < 10 then mp + 3 else mp - 9) \<le> 2 then r + e * 400 + 1 else r + e * 400,
           if mp < 10 then mp + 3 else mp - 9,
           doy - (153 * mp + 2) div 5 + 1)"
    using z doe0 doe1 yoe dd mm by (rule civil_from_days_eval)
  also have "\<dots> = (y, m, d)"
    unfolding month_eq yy by (simp add: doy_def)
  finally show ?thesis .
qed

section \<open>Properties of the traversal engine\<close>

subsection \<open>Sorting\<close>

lemma validTime_timeNum: "validTime w \<Longrightarrow> timeNum w = Some (msOf w)"
  by (auto simp: validTime_def timeNum_def msOf_def split: sum.splits option.splits)

lemma insort_by_future:
  assumes "validTime x" "\<forall>y\<in>set ys. validTime y"
  shows "insort_by (\<lambda>a b. sortCompare Future (timeNum a) (timeNum b)) x ys = insort_key msOf x ys"
  using assms
  by (induction ys) (auto simp: sortCompare_def compareFn_def num_sub_def validTime_timeNum)

lemma insort_by_past:
  assumes "validTime x" "\<forall>y\<in>set ys. validTime y"
  shows "insort_by (\<lambda>a b. sortCompare Past (timeNum a) (timeNum b)) x ys
           = insort_key (\<lambda>w. - msOf w) x ys"
  using assms
  by (induction ys) (auto simp: sortCompare_def compareFn_def num_sub_def validTime_timeNum)

lemma sort_by_future:
  assumes "\<forall>y\<in>set xs. validTime y"
  shows "sort_by (\<lambda>a b. sortCompare Future (timeNum a) (timeNum b)) xs = sort_key msOf xs"
  using assms
proof (induction xs)
  case Nil
  then show ?case by (simp add: sort_by_def)
next
  case (Cons x xs)
  have "\<forall>y\<in>set (sort_key msOf xs). validTime y" using Cons.prems by simp
  with Cons show ?case by (simp add: sort_by_def sort_key_def insort_by_future)
qed

lemma sort_by_past:
  assumes "\<forall>y\<in>set xs. validTime y"
  shows "sort_by (\<lambda>a b. sortCompare Past (timeNum a) (timeNum b)) xs
           = sort_key (\<lambda>w. - msOf w) xs"
  using assms
proof (induction xs)
  case Nil
  then show ?case by (simp add: sort_by_def)
next
  case (Cons x xs)
  have "\<forall>y\<in>set (sort_key (\<lambda>w. - msOf w) xs). validTime y" using Cons.prems by simp
  with Cons show ?case by (simp add: sort_by_def sort_key_def insort_by_past)
qed

text \<open>On nodes with valid times the sort is the stable sort by time.\<close>

lemma sortNodes_valid:
  assumes "\<forall>y\<in>set xs. validTime y"
  shows "sortNodes dir xs
           = Inr (sort_key (\<lambda>w. case dir of Future \<Rightarrow> msOf w | Past \<Rightarrow> - msOf w) xs)"
proof -
  have "\<not> list_ex (\<lambda>w. isl (timestamp w)) xs"
    using assms by (auto simp: list_ex_iff validTime_def isl_def)
  then show ?thesis
    using assms by (cases dir) (simp_all add: sortNodes_def sort_by_future sort_by_past)
qed

lemma keep_leaves_valid:
  assumes "keep Leaves False w"
  shows "validTime w"
  using assms
  by (cases w) (auto simp: keep_def nonCalendar_def validTime_def timestamp_def getTimeOf_def
      getTime_def isNaN_def split: option.splits jsdate.splits if_splits)

lemma rev_sort_key_distinct:
  fixes f :: "'a \<Rightarrow> int"
  assumes "distinct (map f xs)"
  shows "rev (sort_key f xs) = sort_key (\<lambda>w. - f w) xs"
proof -
  let ?g = "\<lambda>w. - f w"
  have inj: "inj_on ?g (set xs)" and dx: "distinct xs"
    using assms by (auto simp: distinct_map inj_on_def)
  have s1: "sorted (map ?g (rev (sort_key f xs)))"
    using sorted_sort_key[of f xs]
    by (simp add: rev_map sorted_wrt_rev sorted_map sorted_wrt_map)
  have s2: "sorted (map ?g (sort_key ?g xs))" by simp
  have d1: "distinct (map ?g (rev (sort_key f xs)))"
    using inj dx by (simp add: distinct_map)
  have d2: "distinct (map ?g (sort_key ?g xs))"
    using inj dx by (simp add: distinct_map)
  have "map ?g (rev (sort_key f xs)) = map ?g (sort_key ?g xs)"
    by (rule sorted_distinct_set_unique[OF s1 d1 s2 d2]) simp
  moreover have "inj_on ?g (set (rev (sort_key f xs)) \<union> set (sort_key ?g xs))"
    using inj by simp
  ultimately show ?thesis
    by (simp add: inj_on_map_eq_map)
qed

lemma nonDecreasing_valid:
  assumes "\<forall>y\<in>set ws. validTime y"
  shows "nonDecreasing ws = sorted (map msOf ws)"
  using assms
  by (induction ws) (auto simp: nonDecreasing_def num_le_def validTime_timeNum)

lemma nonIncreasing_valid:
  assumes "\<forall>y\<in>set ws. validTime y"
  shows "nonIncreasing ws = sorted (map (\<lambda>w. - msOf w) ws)"
  using assms
  by (induction ws) (auto simp: nonIncreasing_def num_le_def validTime_timeNum)

lemma noTies_valid:
  assumes "\<forall>y\<in>set ws. validTime y"
  shows "noTies ws = distinct (map msOf ws)"
  using assms
  by (induction ws) (auto simp: noTies_def strict_eq_def validTime_timeNum)

lemma set_sort_by: "set (sort_by c xs) = set xs"
proof (induction xs)
  case Nil
  show ?case by (simp add: sort_by_def)
next
  case (Cons x xs)
  have "set (insort_by c y ys) = insert y (set ys)" for y ys
    by (induction ys) auto
  with Cons show ?case by (simp add: sort_by_def)
qed

text \<open>A traversal that returns visits exactly the nodes its filter keeps.\<close>

lemma traverse_set:
  assumes "traverse root dir flt inc = Inr visited"
  shows "set visited = {n \<in> set (collectAllChildren root). keep flt inc n}"
  using assms
  by (auto simp: traverse_def sortNodes_def Let_def set_sort_by split: if_splits)

subsection \<open>Order of the visited leaves\<close>

text \<open>
  C2, as amended.  For a traversal with the filter \<open>Leaves\<close> in which every surviving leaf
  has a valid time (which is always so when \<open>includeNonCalendar\<close> is false): both directions
  return, the direction \<open>Future\<close> visits the leaves in non-decreasing time order, the
  direction \<open>Past\<close> in non-increasing time order, and when no two surviving leaves have the
  same millisecond time the \<open>Future\<close> sequence reversed is the \<open>Past\<close> sequence.
\<close>

theorem traverse_leaves_ordering:
  assumes "includeNonCalendar \<longrightarrow> list_all validTime (survivors root includeNonCalendar)"
  shows "\<exists>fs ps. traverse root Future Leaves includeNonCalendar = Inr fs
           \<and> traverse root Past Leaves includeNonCalendar = Inr ps
           \<and> nonDecreasing fs \<and> nonIncreasing ps
           \<and> (noTies fs \<longrightarrow> rev fs = ps)"
proof -
  let ?xs = "survivors root includeNonCalendar"
  have v: "\<forall>w\<in>set ?xs. validTime w"
  proof (cases includeNonCalendar)
    case True
    with assms show ?thesis by (simp add: list_all_iff)
  next
    case False
    then show ?thesis by (auto simp: survivors_def keep_leaves_valid)
  qed
  let ?fs = "sort_key msOf ?xs" and ?ps = "sort_key (\<lambda>w. - msOf w) ?xs"
  have f: "traverse root Future Leaves includeNonCalendar = Inr ?fs"
    using sortNodes_valid[OF v, of Future] by (simp add: traverse_def survivors_def)
  have p: "traverse root Past Leaves includeNonCalendar = Inr ?ps"
    using sortNodes_valid[OF v, of Past] by (simp add: traverse_def survivors_def)
  have vf: "\<forall>w\<in>set ?fs. validTime w" and vp: "\<forall>w\<in>set ?ps. validTime w"
    using v by simp_all
  have a: "nonDecreasing ?fs" by (simp add: nonDecreasing_valid[OF vf])
  have b: "nonIncreasing ?ps" by (simp add: nonIncreasing_valid[OF vp])
  have c: "noTies ?fs \<longrightarrow> rev ?fs = ?ps"
  proof
    assume "noTies ?fs"
    then have "distinct (map msOf ?fs)" by (simp add: noTies_valid[OF vf])
    then have "distinct (map msOf ?xs)"
      by (simp add: distinct_map)
    then show "rev ?fs = ?ps" by (rule rev_sort_key_distinct)
  qed
  from f p a b c show ?thesis by blast
qed

lemma survivors_exampleNested:
  "survivors exampleNested True =
     [LeafWaypoint ''b'' (Some (Date 7)), LeafWaypoint ''a'' (Some (Date 5)),
      LeafWaypoint ''c'' (Some (Date 9))]"
  by (simp add: survivors_def exampleNested_def keep_def)

lemma validTime_leaf: "validTime (LeafWaypoint i (Some (Date t)))"
  by (simp add: validTime_def timestamp_def getTimeOf_def getTime_def)

theorem traverse_leaves_ordering_witness:
  "list_all validTime (survivors exampleNested True)
   \<and> (\<exists>fs ps. traverse exampleNested Future Leaves True = Inr fs
           \<and> traverse exampleNested Past Leaves True = Inr ps
           \<and> nonDecreasing fs \<and> nonIncreasing ps
           \<and> (noTies fs \<longrightarrow> rev fs = ps))"
proof -
  have h: "list_all validTime (survivors exampleNested True)"
    by (simp add: survivors_exampleNested validTime_leaf)
  then have "True \<longrightarrow> list_all validTime (survivors exampleNested True)" by simp
  from h traverse_leaves_ordering[OF this] show ?thesis by blast
qed

text \<open>
  C2 as stated fails when \<open>includeNonCalendar\<close> is set and a leaf has an invalid date: every
  comparison with that leaf yields NaN, which the sort treats as equal, so with the two
  leaves below both directions keep the flattening order.  No two of the leaves have the
  same millisecond time, yet the \<open>Future\<close> sequence reversed is not the \<open>Past\<close> sequence, and
  the \<open>Future\<close> sequence is not in non-decreasing time order.
\<close>

theorem traverse_nan_not_reversed:
  "traverse exampleMixed Future Leaves True
     = Inr [LeafWaypoint ''a'' (Some (Date 5)), LeafWaypoint ''b'' (Some InvalidDate)]
   \<and> traverse exampleMixed Past Leaves True
     = Inr [LeafWaypoint ''a'' (Some (Date 5)), LeafWaypoint ''b'' (Some InvalidDate)]
   \<and> noTies [LeafWaypoint ''a'' (Some (Date 5)), LeafWaypoint ''b'' (Some InvalidDate)]
   \<and> rev [LeafWaypoint ''a'' (Some (Date 5)), LeafWaypoint ''b'' (Some InvalidDate)]
       \<noteq> [LeafWaypoint ''a'' (Some (Date 5)), LeafWaypoint ''b'' (Some InvalidDate)]
   \<and> \<not> nonDecreasing [LeafWaypoint ''a'' (Some (Date 5)), LeafWaypoint ''b'' (Some InvalidDate)]"
  by (simp add: traverse_def exampleMixed_def keep_def sortNodes_def timestamp_def getTimeOf_def
      getTime_def sort_by_def sortCompare_def compareFn_def num_sub_def timeNum_def noTies_def
      strict_eq_def nonDecreasing_def num_le_def)

subsection \<open>Leaves without a calendar time\<close>

lemma find_loop_filter:
  assumes "find_loop tz xs target = Inr found"
  shows "found = filter (matchesDay tz target) xs"
  using assms
  by (induction xs arbitrary: found)
     (auto simp: matchesDay_def split: if_splits sum.splits option.splits)

lemma isSameDay_invalid: "\<not> isSameDay tz InvalidDate target"
  by (simp add: isSameDay_def getFullYear_def strict_eq_def)

lemma sequence_Inr:
  assumes "\<forall>r\<in>set rs. \<exists>x. r = Inr x"
  shows "\<exists>xs. sequence rs = Inr xs"
  using assms by (induction rs) auto

lemma sequence_Inl:
  assumes "sequence rs = Inl e"
  shows "Inl e \<in> set rs"
  using assms by (induction rs) (auto split: sum.splits)

text \<open>The only error \<open>time()\<close> raises is the TypeError of \<open>getTime\<close> on a missing time.\<close>

lemma time_error: "time w = Inl e \<Longrightarrow> e = TypeError"
proof (induction w arbitrary: e)
  case (LeafWaypoint i d)
  then show ?case by simp
next
  case (GroupWaypoint i cs g)
  from GroupWaypoint.prems
  obtain e' where "sequence (map (\<lambda>c. getTimeOf (time c)) cs) = Inl e'" and "e' = e"
    by (auto split: option.splits if_splits sum.splits simp: Let_def)
  then have "Inl e \<in> set (map (\<lambda>c. getTimeOf (time c)) cs)"
    using sequence_Inl by blast
  then obtain c where c: "c \<in> set cs" "getTimeOf (time c) = Inl e" by auto
  then show ?case
    using GroupWaypoint.IH[OF c(1)]
    by (auto simp: getTimeOf_def split: sum.splits option.splits)
qed

lemma find_loop_missing:
  assumes "LeafWaypoint i None \<in> set xs"
  shows "find_loop tz xs target = Inl TypeError"
  using assms
proof (induction xs)
  case Nil
  then show ?case by simp
next
  case (Cons n xs)
  show ?case
  proof (cases "n = LeafWaypoint i None")
    case True
    then show ?thesis by simp
  next
    case False
    with Cons have "find_loop tz xs target = Inl TypeError" by simp
    then show ?thesis
      using time_error[of n] by (auto split: sum.splits option.splits)
  qed
qed

text \<open>
  C3, as amended.  A leaf whose time is missing, zero-epoch or invalid is not among the
  nodes visited by \<open>traverse\<close> unless \<open>includeNonCalendar\<close> is set.  \<open>find\<close> has no such
  exclusion: it never returns a leaf whose time is invalid, it raises a TypeError when the
  graph holds a leaf whose time is missing, and it returns a zero-epoch leaf whenever the
  target falls on the local calendar day of the zero epoch.
\<close>

theorem nonCalendar_exclusion:
  assumes "nonCalendar d"
  shows "(traverse root dir flt False = Inr visited \<longrightarrow> LeafWaypoint i d \<notin> set visited)
       \<and> (d \<noteq> Some (Date 0) \<longrightarrow> find_day tz root target = Inr found
             \<longrightarrow> LeafWaypoint i d \<notin> set found)
       \<and> (d = None \<longrightarrow> LeafWaypoint i d \<in> set (collectAllChildren root)
             \<longrightarrow> find_day tz root target = Inl TypeError)
       \<and> (d = Some (Date 0) \<longrightarrow> LeafWaypoint i d \<in> set (collectAllChildren root)
             \<longrightarrow> isSameDay tz (Date 0) target \<longrightarrow> find_day tz root target = Inr found
             \<longrightarrow> LeafWaypoint i d \<in> set found)"
proof (intro conjI impI)
  assume "traverse root dir flt False = Inr visited"
  from traverse_set[OF this] assms show "LeafWaypoint i d \<notin> set visited"
    by (auto simp: keep_def)
next
  assume "d \<noteq> Some (Date 0)" and f: "find_day tz root target = Inr found"
  with assms have "d = None \<or> d = Some InvalidDate"
    by (auto simp: nonCalendar_def strict_eq_def getTime_def isNaN_def
        split: option.splits jsdate.splits)
  then show "LeafWaypoint i d \<notin> set found"
    using find_loop_filter[OF f[unfolded find_day_def]]
    by (auto simp: isSameDay_invalid matchesDay_def)
next
  assume "d = None" and "LeafWaypoint i d \<in> set (collectAllChildren root)"
  then show "find_day tz root target = Inl TypeError"
    by (simp add: find_day_def find_loop_missing)
next
  assume "d = Some (Date 0)" and "LeafWaypoint i d \<in> set (collectAllChildren root)"
    and "isSameDay tz (Date 0) target" and f: "find_day tz root target = Inr found"
  then show "LeafWaypoint i d \<in> set found"
    using find_loop_filter[OF f[unfolded find_day_def]]
    by (auto simp: matchesDay_def)
qed

theorem nonCalendar_exclusion_witness:
  "nonCalendar (Some InvalidDate)
   \<and> traverse exampleMixed Past All False = Inr [exampleMixed, LeafWaypoint ''a'' (Some (Date 5))]
   \<and> LeafWaypoint ''b'' (Some InvalidDate) \<notin> set [exampleMixed, LeafWaypoint ''a'' (Some (Date 5))]
   \<and> find_day utcZone exampleMixed (Date 5) = Inr [LeafWaypoint ''a'' (Some (Date 5))]
   \<and> LeafWaypoint ''b'' (Some InvalidDate) \<notin> set [LeafWaypoint ''a'' (Some (Date 5))]"
proof -
  have h: "nonCalendar (Some InvalidDate)"
    by (simp add: nonCalendar_def getTime_def isNaN_def)
  have t: "traverse exampleMixed Past All False
             = Inr [exampleMixed, LeafWaypoint ''a'' (Some (Date 5))]"
    by (simp add: traverse_def exampleMixed_def keep_def nonCalendar_def sortNodes_def
        timestamp_def getTimeOf_def getTime_def isNaN_def strict_eq_def sort_by_def
        sortCompare_def compareFn_def num_sub_def timeNum_def)
  have f: "find_day utcZone exampleMixed (Date 5) = Inr [LeafWaypoint ''a'' (Some (Date 5))]"
    by (simp add: find_day_def exampleMixed_def isSameDay_def getFullYear_def getMonth_def
        getDate_def strict_eq_def)
  from nonCalendar_exclusion[OF h, of exampleMixed Past All
      "[exampleMixed, LeafWaypoint ''a'' (Some (Date 5))]" "''b''" utcZone "Date 5"
      "[LeafWaypoint ''a'' (Some (Date 5))]"] h t f
  show ?thesis by simp
qed

text \<open>
  C3 as stated fails for \<open>find\<close>: the leaf below has the zero epoch as its time, and \<open>find\<close>
  returns it for the target 1970-01-01T00:00:00Z.
\<close>

theorem find_returns_zero_epoch:
  "nonCalendar (Some (Date 0))
   \<and> find_day utcZone exampleEpoch (Date 0) = Inr [LeafWaypoint ''a'' (Some (Date 0))]"
  by (simp add: nonCalendar_def strict_eq_def getTime_def find_day_def exampleEpoch_def
      isSameDay_def getFullYear_def getMonth_def getDate_def)

subsection \<open>Exact lookup\<close>

lemma navigate_loop_find:
  assumes "list_all (\<lambda>n. isContainer n \<or> time n \<noteq> Inr None) xs"
  shows "navigate_loop xs tt = Inr (List.find (\<lambda>n. \<not> isContainer n \<and> strict_eq (timeNum n) tt) xs)"
  using assms
proof (induction xs)
  case Nil
  show ?case by simp
next
  case (Cons n xs)
  show ?case
  proof (cases n)
    case (LeafWaypoint i d)
    with Cons show ?thesis
      by (cases d) (auto simp: timestamp_def timeNum_def getTimeOf_def)
  next
    case (GroupWaypoint i cs g)
    with Cons show ?thesis by simp
  qed
qed

lemma find_nan: "List.find (\<lambda>n. \<not> isContainer n \<and> strict_eq (timeNum n) None) xs = None"
  by (induction xs) (auto simp: strict_eq_def split: option.splits)

text \<open>
  C5.  On every graph that respects the interface type (no leaf time is missing) and for
  every target, \<open>navigate\<close> returns the first node of the pre-order flattening that is not
  a container and whose time is \<open>===\<close> to the target's time value, and \<open>null\<close> when there is
  none; for an invalid target date it returns \<open>null\<close>.  It does not raise.
\<close>

theorem navigate_first_match:
  assumes "typed root"
  shows "navigate root target =
           Inr (List.find (\<lambda>n. \<not> isContainer n \<and> strict_eq (timeNum n) (getTime target))
                  (collectAllChildren root))
       \<and> (target = InvalidDate \<longrightarrow> navigate root target = Inr None)"
proof -
  have 1: "navigate root target =
           Inr (List.find (\<lambda>n. \<not> isContainer n \<and> strict_eq (timeNum n) (getTime target))
                  (collectAllChildren root))"
    using assms unfolding navigate_def typed_def by (rule navigate_loop_find)
  with find_nan show ?thesis by (auto simp: getTime_def)
qed

lemma typed_exampleNested: "typed exampleNested"
  by (simp add: typed_def exampleNested_def)

theorem navigate_first_match_witness:
  "typed exampleNested
   \<and> navigate exampleNested (Date 5) = Inr (Some (LeafWaypoint ''a'' (Some (Date 5))))
   \<and> navigate exampleNested InvalidDate = Inr None"
proof -
  have h: "typed exampleNested" by (rule typed_exampleNested)
  have f: "List.find (\<lambda>n. \<not> isContainer n \<and> strict_eq (timeNum n) (getTime (Date 5)))
                  (collectAllChildren exampleNested) = Some (LeafWaypoint ''a'' (Some (Date 5)))"
    by (simp add: exampleNested_def timeNum_def timestamp_def getTimeOf_def getTime_def strict_eq_def)
  have a: "navigate exampleNested (Date 5) = Inr (Some (LeafWaypoint ''a'' (Some (Date 5))))"
    using navigate_first_match[OF h, of "Date 5"] f by simp
  have b: "navigate exampleNested InvalidDate = Inr None"
    using navigate_first_match[OF h, of InvalidDate] by blast
  from h a b show ?thesis by blast
qed

subsection \<open>Containers and the calendar test\<close>

lemma subtree_typed:
  assumes "list_all (\<lambda>n. isContainer n \<or> time n \<noteq> Inr None) (collectAllChildren w)"
  shows "\<exists>d. time w = Inr (Some d)"
  using assms
proof (induction w)
  case (LeafWaypoint i d)
  then show ?case by (cases d) auto
next
  case (GroupWaypoint i cs g)
  have "\<forall>c\<in>set cs. \<exists>x. getTimeOf (time c) = Inr x"
  proof
    fix c assume c: "c \<in> set cs"
    have "list_all (\<lambda>n. isContainer n \<or> time n \<noteq> Inr None) (collectAllChildren c)"
      using GroupWaypoint.prems c by (auto simp: list_all_iff)
    from GroupWaypoint.IH[OF c this] show "\<exists>x. getTimeOf (time c) = Inr x"
      by (auto simp: getTimeOf_def)
  qed
  then have "\<forall>r\<in>set (map (\<lambda>c. getTimeOf (time c)) cs). \<exists>x. r = Inr x" by auto
  from sequence_Inr[OF this] show ?case
    by (auto split: option.splits simp: Let_def)
qed

lemma collect_subtree:
  assumes "n \<in> set (collectAllChildren w)"
  shows "set (collectAllChildren n) \<subseteq> set (collectAllChildren w)"
  using assms
proof (induction w)
  case (LeafWaypoint i d)
  then show ?case by simp
next
  case (GroupWaypoint i cs g)
  show ?case
  proof (cases "n = GroupWaypoint i cs g")
    case True
    then show ?thesis by simp
  next
    case False
    with GroupWaypoint.prems obtain c where c: "c \<in> set cs" "n \<in> set (collectAllChildren c)"
      by auto
    from GroupWaypoint.IH[OF this] c(1) show ?thesis by auto
  qed
qed

lemma typed_timestamp:
  assumes "typed root" "n \<in> set (collectAllChildren root)"
  shows "\<not> isl (timestamp n)"
proof -
  have "list_all (\<lambda>n. isContainer n \<or> time n \<noteq> Inr None) (collectAllChildren n)"
    using assms collect_subtree[OF assms(2)] by (auto simp: typed_def list_all_iff)
  from subtree_typed[OF this] show ?thesis
    by (auto simp: timestamp_def getTimeOf_def)
qed

text \<open>
  C10.  The calendar test of \<open>traverse\<close> applies to leaves only: on every graph that respects
  the interface type, with the filter \<open>All\<close> or \<open>Containers\<close>, whatever \<open>includeNonCalendar\<close>
  is and whatever time the containers have, the traversal returns and every container of
  the flattening is visited; so is a container without children, whose time is the zero
  epoch.
\<close>

theorem containers_always_visited:
  assumes "typed root" "flt \<noteq> Leaves"
  shows "\<exists>visited. traverse root dir flt includeNonCalendar = Inr visited
           \<and> (\<forall>c\<in>set (collectAllChildren root). isContainer c \<longrightarrow> c \<in> set visited)"
proof -
  let ?xs = "filter (keep flt includeNonCalendar) (collectAllChildren root)"
  have "\<not> list_ex (\<lambda>w. isl (timestamp w)) ?xs"
    using typed_timestamp[OF assms(1)] by (auto simp: list_ex_iff)
  then have "traverse root dir flt includeNonCalendar =
      Inr (sort_by (\<lambda>a b. sortCompare dir (timeNum a) (timeNum b)) ?xs)"
    by (simp add: traverse_def sortNodes_def)
  moreover have "isContainer c \<Longrightarrow> keep flt includeNonCalendar c" for c
    using assms(2) by (simp add: keep_def)
  ultimately show ?thesis
    by (auto simp: set_sort_by)
qed

theorem containers_always_visited_witness:
  "typed exampleNested \<and> All \<noteq> Leaves
   \<and> time (GroupWaypoint ''empty'' [] None) = Inr (Some (Date 0))
   \<and> (\<exists>visited. traverse exampleNested Past All False = Inr visited
           \<and> (\<forall>c\<in>set (collectAllChildren exampleNested). isContainer c \<longrightarrow> c \<in> set visited)
           \<and> GroupWaypoint ''empty'' [] None \<in> set visited)"
proof -
  have h: "typed exampleNested" by (rule typed_exampleNested)
  have n: "All \<noteq> Leaves" by simp
  have m: "GroupWaypoint ''empty'' [] None \<in> set (collectAllChildren exampleNested)"
    by (simp add: exampleNested_def)
  from containers_always_visited[OF h n, of Past False] m h
  show ?thesis by auto
qed

section \<open>Properties of the index builder\<close>

subsection \<open>What rebuild computes\<close>

lemma addFile_leafOf:
  "addFile acc path =
     (case leafOf path of None \<Rightarrow> acc | Some w \<Rightarrow> (fst acc @ [w], (snd acc)(path \<mapsto> w)))"
  by (simp add: addFile_def leafOf_def Let_def split: option.splits prod.splits)

lemma foldl_addFile:
  "foldl addFile (cs, m) files =
     (cs @ List.map_filter leafOf files,
      (\<lambda>p. if p \<in> set files \<and> leafOf p \<noteq> None then leafOf p else m p))"
proof (induction files arbitrary: cs m)
  case Nil
  show ?case by (simp add: List.map_filter_simps)
next
  case (Cons f files)
  show ?case
  proof (cases "leafOf f")
    case None
    with Cons show ?thesis by (auto simp: addFile_leafOf List.map_filter_simps fun_eq_iff)
  next
    case (Some w)
    with Cons show ?thesis
      by (auto simp: addFile_leafOf List.map_filter_simps fun_eq_iff)
  qed
qed

text \<open>A path that passes the pattern test has a match, so it becomes a leaf.\<close>

lemma matchHere_anchored:
  assumes "matchHere True s = Some r"
  shows "matchHere False s = Some r"
  using assms
  by (auto simp: matchHere_def Let_def split: option.splits prod.splits if_splits)

lemma searchFrom_anchored:
  assumes "searchFrom True s \<noteq> None"
  shows "searchFrom False s \<noteq> None"
  using assms
proof (induction s)
  case Nil
  then show ?case by (auto simp: matchHere_anchored)
next
  case (Cons c cs)
  show ?case
  proof (cases "matchHere True (c # cs)")
    case None
    with Cons show ?thesis by (auto split: option.splits)
  next
    case (Some r)
    then show ?thesis by (simp add: matchHere_anchored)
  qed
qed

lemma test_implies_leaf:
  assumes "dailyNotePattern_test path"
  shows "leafOf path \<noteq> None"
  using searchFrom_anchored[of path] assms
  by (auto simp: dailyNotePattern_test_def leafOf_def pathMatch_def split: option.splits)

text \<open>
  A successful \<open>rebuild\<close> replaces both the graph and the map, whatever they were before:
  the leaves are those of the listed paths that pass the pattern test, in listing order.
\<close>

lemma rebuild_success:
  "rebuild svc (Inr allFiles) =
     (None, \<lparr>timewalk = GroupWaypoint ''daily-notes''
                          (List.map_filter leafOf (filter dailyNotePattern_test allFiles)) None,
             waypointMap = (\<lambda>p. if p \<in> set allFiles \<and> dailyNotePattern_test p then leafOf p else None)\<rparr>)"
  by (auto simp: rebuild_def foldl_addFile fun_eq_iff)

text \<open>A failing listing leaves \<open>rebuild\<close> after the map has been cleared.\<close>

lemma rebuild_listing_failure:
  "rebuild svc (Inl e) = (Some e, svc\<lparr>waypointMap := Map.empty\<rparr>)"
  by (simp add: rebuild_def)

lemma concat_collect_leaves:
  assumes "\<forall>c\<in>set cs. \<not> isContainer c"
  shows "concat (map collectAllChildren cs) = cs"
  using assms
proof (induction cs)
  case Nil
  show ?case by simp
next
  case (Cons c cs)
  then show ?case by (cases c) auto
qed

lemma leafOf_shape:
  assumes "leafOf p = Some w"
  shows "\<exists>y m d. w = LeafWaypoint p (Some (DateUTC y m d))"
  using assms by (auto simp: leafOf_def split: option.splits)

lemma map_filter_leafOf:
  assumes "w \<in> set (List.map_filter leafOf files)"
  shows "\<exists>p y m d. w = LeafWaypoint p (Some (DateUTC y m d))"
proof -
  from assms obtain p where "leafOf p = Some w"
    by (auto simp: List.map_filter_def)
  from leafOf_shape[OF this] show ?thesis by blast
qed

lemma DateUTC_midnight:
  assumes "DateUTC y m d = Date t"
  shows "t mod msPerDay = 0"
  using assms by (auto simp: DateUTC_def timeClip_def Let_def split: if_splits)

lemma rebuild_collect:
  "collectAllChildren (timewalk (snd (rebuild svc (Inr allFiles)))) =
     timewalk (snd (rebuild svc (Inr allFiles)))
       # List.map_filter leafOf (filter dailyNotePattern_test allFiles)"
proof -
  have "\<forall>c\<in>set (List.map_filter leafOf (filter dailyNotePattern_test allFiles)). \<not> isContainer c"
    using map_filter_leafOf by fastforce
  then show ?thesis by (simp add: rebuild_success concat_collect_leaves)
qed

lemma midnight_time:
  assumes "midnight w"
  shows "time w = Inr (Some (Date (dayNum w * msPerDay)))" "msOf w = dayNum w * msPerDay" "validTime w"
        "\<not> isContainer w"
  using assms
  by (auto simp: midnight_def dayNum_def msOf_def timeNum_def timestamp_def getTimeOf_def
      getTime_def validTime_def split: waypoint.splits option.splits jsdate.splits)

text \<open>Every leaf of a rebuilt graph that a traversal visits is dated at midnight UTC.\<close>

lemma rebuild_survivors_midnight:
  assumes "w \<in> set (survivors (timewalk (snd (rebuild svc (Inr allFiles)))) False)"
  shows "midnight w"
proof -
  from assms have k: "keep Leaves False w"
    and "w \<in> set (collectAllChildren (timewalk (snd (rebuild svc (Inr allFiles)))))"
    by (auto simp: survivors_def)
  then have "w \<in> set (List.map_filter leafOf (filter dailyNotePattern_test allFiles))"
    unfolding rebuild_collect using k by (auto simp: rebuild_success keep_def)
  from map_filter_leafOf[OF this] obtain p y m d where w: "w = LeafWaypoint p (Some (DateUTC y m d))"
    by blast
  show ?thesis
  proof (cases "DateUTC y m d")
    case InvalidDate
    with k w show ?thesis by (simp add: keep_def nonCalendar_def getTime_def isNaN_def)
  next
    case (Date t)
    with DateUTC_midnight[OF this] w show ?thesis by (simp add: midnight_def)
  qed
qed

lemma msOf_leaf: "msOf (LeafWaypoint p (Some (Date t))) = t"
  by (simp add: msOf_def timeNum_def timestamp_def getTimeOf_def getTime_def)

lemma keep_leaf: "t \<noteq> 0 \<Longrightarrow> keep Leaves False (LeafWaypoint p (Some (Date t)))"
  by (simp add: keep_def nonCalendar_def strict_eq_def getTime_def isNaN_def)

lemma keep_midnight:
  assumes "midnight c" "msOf c \<noteq> 0"
  shows "keep Leaves False c"
proof -
  from assms(1) obtain p t where "c = LeafWaypoint p (Some (Date t))"
    by (auto simp: midnight_def split: waypoint.splits option.splits jsdate.splits)
  with assms(2) show ?thesis by (simp add: msOf_leaf keep_leaf)
qed

lemma traverse_leaf_group:
  assumes "\<forall>c\<in>set cs. midnight c \<and> msOf c \<noteq> 0"
  shows "traverse (GroupWaypoint i cs g) Future Leaves False = Inr (sort_key msOf cs)"
proof -
  have l: "\<forall>c\<in>set cs. \<not> isContainer c" using assms midnight_time(4) by blast
  have k: "\<forall>c\<in>set cs. keep Leaves False c"
    using assms keep_midnight by blast
  have "filter (keep Leaves False) (collectAllChildren (GroupWaypoint i cs g)) = cs"
    using k by (simp add: concat_collect_leaves[OF l] keep_def)
  moreover have "\<forall>c\<in>set cs. validTime c" using assms midnight_time(3) by blast
  ultimately show ?thesis
    using sortNodes_valid[of cs Future] by (simp add: traverse_def)
qed

lemma traverse_leaves_returns:
  "\<exists>ws. traverse root Future Leaves False = Inr ws
        \<and> (\<forall>w\<in>set ws. validTime w \<and> \<not> isContainer w)"
proof -
  let ?xs = "survivors root False"
  have v: "\<forall>w\<in>set ?xs. validTime w" by (auto simp: survivors_def keep_leaves_valid)
  have "traverse root Future Leaves False = Inr (sort_key msOf ?xs)"
    using sortNodes_valid[OF v, of Future] by (simp add: traverse_def survivors_def)
  moreover have "\<forall>w\<in>set ?xs. \<not> isContainer w" by (auto simp: survivors_def keep_def)
  ultimately show ?thesis using v by auto
qed

lemma isSameDay_refl: "isSameDay tz (Date t) (Date t)"
  by (simp add: isSameDay_def getFullYear_def getMonth_def getDate_def strict_eq_def)

subsection \<open>The example services\<close>

lemma leafOf_jan:
  "leafOf ''2025/01. Jan/05 Sun.md'' = Some jan05"
  "leafOf ''2025/01. Jan/01 Wed.md'' = Some jan01"
  "leafOf ''2025/01. Jan/02 Thu.md'' = Some jan02"
  by code_simp+

lemma test_jan:
  "dailyNotePattern_test ''2025/01. Jan/05 Sun.md''"
  "dailyNotePattern_test ''2025/01. Jan/01 Wed.md''"
  "dailyNotePattern_test ''2025/01. Jan/02 Thu.md''"
  by code_simp+

lemma timewalk_janService:
  "timewalk janService = GroupWaypoint ''daily-notes'' [jan05, jan01, jan02] None"
  by (simp add: janService_def janFiles_def rebuild_success List.map_filter_simps leafOf_jan test_jan)

lemma traverse_janService:
  "traverse (timewalk janService) Future Leaves False = Inr [jan01, jan02, jan05]"
proof -
  have "\<forall>c\<in>set [jan05, jan01, jan02]. midnight c \<and> msOf c \<noteq> 0"
    by (simp add: jan01_def jan02_def jan05_def midnight_def msOf_leaf msPerDay_def)
  from traverse_leaf_group[OF this] show ?thesis
    by (simp add: timewalk_janService) (simp add: jan01_def jan02_def jan05_def msOf_leaf)
qed

lemma waypointMap_janService:
  "waypointMap janService ''2025/01. Jan/01 Wed.md'' = Some jan01"
  by (simp add: janService_def janFiles_def rebuild_success leafOf_jan test_jan)

lemma leafOf_dup:
  "leafOf ''a/2025/01. Jan/02 Thu.md'' = Some dupA"
  "leafOf ''b/2025/01. Jan/02 Thu.md'' = Some dupB"
  by code_simp+

lemma test_dup:
  "dailyNotePattern_test ''a/2025/01. Jan/02 Thu.md''"
  "dailyNotePattern_test ''b/2025/01. Jan/02 Thu.md''"
  by code_simp+

lemma timewalk_dupService:
  "timewalk dupService = GroupWaypoint ''daily-notes'' [dupA, dupB] None"
  by (simp add: dupService_def dupFiles_def rebuild_success List.map_filter_simps leafOf_dup test_dup)

lemma traverse_dupService:
  "traverse (timewalk dupService) Future Leaves False = Inr [dupA, dupB]"
proof -
  have "\<forall>c\<in>set [dupA, dupB]. midnight c \<and> msOf c \<noteq> 0"
    by (simp add: dupA_def dupB_def midnight_def msOf_leaf msPerDay_def)
  from traverse_leaf_group[OF this] show ?thesis
    by (simp add: timewalk_dupService) (simp add: dupA_def dupB_def msOf_leaf)
qed

lemma leafOf_odd:
  "leafOf ''0025/03. Mar/07 Fri.md''
     = Some (LeafWaypoint ''0025/03. Mar/07 Fri.md'' (Some (Date (- 1414454400000))))"
  "leafOf ''2025/02. Feb/30 Sun.md''
     = Some (LeafWaypoint ''2025/02. Feb/30 Sun.md'' (Some (Date 1740873600000)))"
  by code_simp+

lemma test_odd:
  "dailyNotePattern_test ''0025/03. Mar/07 Fri.md''"
  "dailyNotePattern_test ''2025/02. Feb/30 Sun.md''"
  by code_simp+

lemma pathMatch_odd:
  "pathMatch ''0025/03. Mar/07 Fri.md'' = Some (''0025'', ''03'', ''07'')"
  "pathMatch ''2025/02. Feb/30 Sun.md'' = Some (''2025'', ''02'', ''30'')"
  by code_simp+

lemma format_odd:
  "format_date (Moment (- 1414454400000)) = ''1925-03-07''"
  "format_date (Moment 1740873600000) = ''2025-03-02''"
  by code_simp+

lemma leafOf_mar:
  "leafOf ''2025/03. Mar/07 Fri.md''
     = Some (LeafWaypoint ''2025/03. Mar/07 Fri.md'' (Some (Date 1741305600000)))"
  by code_simp

lemma test_mar:
  "dailyNotePattern_test ''2025/03. Mar/07 Fri.md''"
  "\<not> dailyNotePattern_test ''notes/random.md''"
  by code_simp+

lemma format_mar:
  "format_date (Moment 1741305600000) = ''2025-03-07''"
  "format_date (Moment 1741287600000) = ''2025-03-06''"
  by code_simp+

lemma pathMatch_mar:
  "pathMatch ''2025/03. Mar/07 Fri.md'' = Some (''2025'', ''03'', ''07'')"
  by code_simp

lemma parse_examples:
  "moment_parse ''2025'' ''02'' ''30'' = InvalidMoment"
  "moment_parse ''0025'' ''03'' ''07'' = Moment (- 61372598400000)"
  "moment_parse ''2025'' ''03'' ''07'' = Moment 1741305600000"
  by code_simp+

lemma format_year25: "format_date (Moment (- 61372598400000)) = ''0025-03-07''"
  by code_simp

lemma format_jan:
  "format_date (Moment 1735689600000) = ''2025-01-01''"
  "format_date (Moment 1735862400000) = ''2025-01-03''"
  "format_date (Moment 1736035200000) = ''2025-01-05''"
  by code_simp+

lemma format_jan02: "format_date (Moment 1735776000000) = ''2025-01-02''"
  by code_simp

lemma format_epoch: "format_date (Moment 0) = ''1970-01-01''"
  by code_simp

subsection \<open>A failing listing\<close>

text \<open>
  C4.  \<open>janService\<close> has three files in its map.  When the listing call of the next
  \<open>rebuild\<close> raises, the error leaves \<open>rebuild\<close> and the graph is the previous one, but the
  map has been cleared before the listing call: the cached file is gone, the state is the
  old graph with an empty map.
\<close>

theorem rebuild_failure_clears_cache:
  "waypointMap janService ''2025/01. Jan/01 Wed.md''
     = Some (LeafWaypoint ''2025/01. Jan/01 Wed.md'' (Some (Date 1735689600000)))
   \<and> fst (rebuild janService (Inl ListingFailure)) = Some ListingFailure
   \<and> timewalk (snd (rebuild janService (Inl ListingFailure))) = timewalk janService
   \<and> waypointMap (snd (rebuild janService (Inl ListingFailure))) ''2025/01. Jan/01 Wed.md'' = None"
  using waypointMap_janService
  by (simp add: rebuild_listing_failure jan01_def)

subsection \<open>Dates of the leaves\<close>

lemma parseInt_snoc: "parseInt (ds @ [c]) = 10 * parseInt ds + (of_char c - 48)"
  by (simp add: parseInt_def)

lemma parseInt_range:
  assumes "list_all isDigit ds"
  shows "0 \<le> parseInt ds \<and> parseInt ds < 10 ^ length ds"
  using assms
proof (induction ds rule: rev_induct)
  case Nil
  show ?case by (simp add: parseInt_def)
next
  case (snoc c ds)
  then have "0 \<le> parseInt ds" "parseInt ds < 10 ^ length ds" by simp_all
  moreover have "0 \<le> (of_char c :: int) - 48" "(of_char c :: int) - 48 \<le> 9"
    using snoc.prems by (simp_all add: isDigit_def Let_def)
  ultimately show ?case by (simp add: parseInt_snoc)
qed

lemma takeDigits_range:
  assumes "takeDigits n s = Some (ds, rest)"
  shows "0 \<le> parseInt ds \<and> parseInt ds < 10 ^ n"
proof -
  from assms have "list_all isDigit ds" "length ds = n"
    by (auto simp: takeDigits_def split: if_splits)
  with parseInt_range[of ds] show ?thesis by simp
qed

lemma matchHere_year:
  assumes "matchHere anchored s = Some (year, month, day)"
  shows "0 \<le> parseInt year \<and> parseInt year \<le> 9999"
proof -
  from assms obtain s1 where "takeDigits 4 s = Some (year, s1)"
    by (auto simp: matchHere_def Let_def split: option.splits prod.splits if_splits)
  from takeDigits_range[OF this] show ?thesis by simp
qed

lemma pathMatch_year:
  assumes "pathMatch p = Some (year, month, day)"
  shows "0 \<le> parseInt year \<and> parseInt year \<le> 9999"
proof -
  have "searchFrom a s = Some (year, month, day)
          \<Longrightarrow> \<exists>s'. matchHere a s' = Some (year, month, day)" for a s
    by (induction s) (auto split: option.splits)
  with assms matchHere_year show ?thesis unfolding pathMatch_def by blast
qed

lemma day_div: "(k * msPerDay) div msPerDay = k"
  by (simp add: msPerDay_def)

lemma format_date_day:
  assumes "1 \<le> m" "m \<le> 12" "1 \<le> d" "d \<le> daysInMonth y m"
  shows "format_date (Moment (makeDay y (m - 1) d * msPerDay))
           = zeroFill y 4 @ ''-'' @ zeroFill m 2 @ ''-'' @ zeroFill d 2"
  using civil_from_days_makeDay[OF assms]
  by (simp add: format_date_def day_div)

lemma makeDay_bound:
  assumes y: "0 \<le> y" "y \<le> 9999" and m: "1 \<le> m" "m \<le> 12" and d: "1 \<le> d" "d \<le> 31"
  shows "\<bar>makeDay y (m - 1) d\<bar> \<le> 4000000"
proof -
  define A B C where "A = (y - 1) div 4" and "B = (y - 1) div 100" and "C = (y - 1) div 400"
  have "(- 1) div 4 \<le> A" "A \<le> 9998 div (4::int)" unfolding A_def using y
    by (intro zdiv_mono1; simp)+
  then have A: "- 1 \<le> A" "A \<le> 2499" by simp_all
  have "(- 1) div 100 \<le> B" "B \<le> 9998 div (100::int)" unfolding B_def using y
    by (intro zdiv_mono1; simp)+
  then have B: "- 1 \<le> B" "B \<le> 99" by simp_all
  have "(- 1) div 400 \<le> C" "C \<le> 9998 div (400::int)" unfolding C_def using y
    by (intro zdiv_mono1; simp)+
  then have C: "- 1 \<le> C" "C \<le> 24" by simp_all
  have dy: "dayFromYear y = 365 * y + (A - B + C) - 719527"
    by (simp only: dayFromYear_leaps leapsUpTo_def A_def B_def C_def)
  have db: "0 \<le> daysBeforeMonth y (m - 1)" "daysBeforeMonth y (m - 1) \<le> 335"
    using month_cases[OF m] by (elim disjE; simp add: daysBeforeMonth_def)+
  have "makeDay y (m - 1) d = dayFromYear y + daysBeforeMonth y (m - 1) + d - 1"
    using m by (simp add: makeDay_def Let_def)
  then show ?thesis using dy db A B C y d by linarith
qed

lemma DateUTC_valid:
  assumes "100 \<le> y" "y \<le> 9999" "1 \<le> m" "m \<le> 12" "1 \<le> d" "d \<le> daysInMonth y m"
  shows "DateUTC y (m - 1) d = Date (makeDay y (m - 1) d * msPerDay)"
proof -
  have "d \<le> 31" using assms(6) by (simp add: daysInMonth_def split: if_splits)
  with makeDay_bound[of y m d] assms have "\<bar>makeDay y (m - 1) d\<bar> \<le> 4000000" by simp
  then have "\<bar>makeDay y (m - 1) d * msPerDay\<bar> \<le> 8640000000000000"
    by (simp add: msPerDay_def abs_mult)
  with assms(1) show ?thesis by (simp add: DateUTC_def timeClip_def)
qed

text \<open>
  When the captured year, month and day denote a date of the calendar and the year is at
  least 100, the leaf is dated at midnight UTC of that date (it displays as that date in
  UTC), and the fallback of \<open>getDailyNoteDate\<close> parses the same day.
\<close>

lemma valid_capture_leaf:
  assumes "pathMatch p = Some (year, month, day)" "validCapture (year, month, day)"
  shows "leafOf p = Some (LeafWaypoint p (Some (Date (midnightOf (year, month, day)))))"
    and "moment_parse year month day = Moment (midnightOf (year, month, day))"
    and "format_date (moment_utc (Some (Date (midnightOf (year, month, day)))))
           = zeroFill (parseInt year) 4 @ ''-'' @ zeroFill (parseInt month) 2 @ ''-''
               @ zeroFill (parseInt day) 2"
proof -
  from assms(2) have v: "100 \<le> parseInt year" "1 \<le> parseInt month" "parseInt month \<le> 12"
    "1 \<le> parseInt day" "parseInt day \<le> daysInMonth (parseInt year) (parseInt month)"
    by (simp_all add: validCapture_def)
  have y: "parseInt year \<le> 9999" using pathMatch_year[OF assms(1)] by simp
  show "leafOf p = Some (LeafWaypoint p (Some (Date (midnightOf (year, month, day)))))"
    using assms(1) DateUTC_valid[OF v(1) y v(2-5)] by (simp add: leafOf_def midnightOf_def)
  show "moment_parse year month day = Moment (midnightOf (year, month, day))"
    using v by (simp add: moment_parse_def midnightOf_def Let_def)
  show "format_date (moment_utc (Some (Date (midnightOf (year, month, day)))))
           = zeroFill (parseInt year) 4 @ ''-'' @ zeroFill (parseInt month) 2 @ ''-''
               @ zeroFill (parseInt day) 2"
    using format_date_day[OF v(2-5)] by (simp add: moment_utc_def midnightOf_def)
qed

text \<open>
  The path of the scenario of the specification becomes a leaf dated
  2025-03-07T00:00:00Z, and \<open>notes/random.md\<close> gets no entry.
\<close>

lemma rebuild_march:
  "timewalk marService
     = GroupWaypoint ''daily-notes''
         [LeafWaypoint ''2025/03. Mar/07 Fri.md'' (Some (Date 1741305600000))] None
   \<and> waypointMap marService ''notes/random.md'' = None
   \<and> format_date (moment_utc (Some (Date 1741305600000))) = ''2025-03-07''
   \<and> 1741305600000 mod msPerDay = 0"
  by (simp add: marService_def marFiles_def rebuild_success List.map_filter_simps leafOf_mar
      test_mar format_mar moment_utc_def msPerDay_def)

text \<open>
  C7.  Both paths below match the pattern.  The first captures the year 0025, which
  \<open>Date.UTC\<close> reads as 1925; the second captures the day 30 of February, which \<open>Date.UTC\<close>
  carries into March.  Neither leaf is dated at midnight of the captured year, month and
  day.
\<close>

theorem rebuild_unchecked_dates:
  "pathMatch ''0025/03. Mar/07 Fri.md'' = Some (''0025'', ''03'', ''07'')
   \<and> pathMatch ''2025/02. Feb/30 Sun.md'' = Some (''2025'', ''02'', ''30'')
   \<and> timewalk (snd (rebuild emptyService (Inr oddFiles)))
     = GroupWaypoint ''daily-notes''
         [LeafWaypoint ''0025/03. Mar/07 Fri.md'' (Some (Date (- 1414454400000))),
          LeafWaypoint ''2025/02. Feb/30 Sun.md'' (Some (Date 1740873600000))] None
   \<and> format_date (moment_utc (Some (Date (- 1414454400000)))) = ''1925-03-07''
   \<and> format_date (moment_utc (Some (Date 1740873600000))) = ''2025-03-02''"
  by (simp add: oddFiles_def rebuild_success List.map_filter_simps leafOf_odd test_odd
      pathMatch_odd format_odd moment_utc_def)

subsection \<open>The date of a file\<close>

text \<open>\<open>getDailyNoteDate\<close> returns \<open>null\<close> exactly when both of its branches fail.\<close>

lemma getDailyNoteDate_null:
  "getDailyNoteDate tz svc path = None \<longleftrightarrow>
     waypointMap svc path = None \<and>
     (case pathMatch path of None \<Rightarrow> True
      | Some (year, month, day) \<Rightarrow> \<not> isValid (moment_parse year month day))"
  by (auto simp: getDailyNoteDate_def Let_def split: option.splits prod.splits)

lemma local_day_east:
  assumes "0 \<le> off" "off < msPerDay"
  shows "(k * msPerDay + off) div msPerDay = k"
  using assms by (intro div_between) (simp_all add: msPerDay_def)

text \<open>
  For such a path, and in an environment whose local time is UTC or ahead of it by less
  than a day, the cached branch and the fallback display the same calendar date.
\<close>

lemma branches_agree:
  assumes pm: "pathMatch p = Some (year, month, day)" and v: "validCapture (year, month, day)"
    and cached: "dailyNotePattern_test p" "p \<in> set files"
    and absent: "waypointMap svc2 p = None"
    and east: "0 \<le> tz (midnightOf (year, month, day))"
              "tz (midnightOf (year, month, day)) < msPerDay"
  shows "\<exists>a b. getDailyNoteDate tz (snd (rebuild svc1 (Inr files))) p = Some a
            \<and> getDailyNoteDate tz svc2 p = Some b
            \<and> format_date a = format_date b"
proof -
  let ?t = "midnightOf (year, month, day)"
  note leaf = valid_capture_leaf[OF pm v]
  have a: "getDailyNoteDate tz (snd (rebuild svc1 (Inr files))) p = Some (Moment (?t + tz ?t))"
    using cached leaf(1) by (simp add: getDailyNoteDate_def rebuild_success moment_local_def)
  have b: "getDailyNoteDate tz svc2 p = Some (Moment ?t)"
    using absent pm leaf(2) by (simp add: getDailyNoteDate_def isValid_def)
  define k where "k = makeDay (parseInt year) (parseInt month - 1) (parseInt day)"
  have k: "?t = k * msPerDay" by (simp add: midnightOf_def k_def)
  have "(?t + tz ?t) div msPerDay = ?t div msPerDay"
    using local_day_east[OF east, of k] k by (simp add: day_div)
  then have "format_date (Moment (?t + tz ?t)) = format_date (Moment ?t)"
    by (simp add: format_date_def)
  with a b show ?thesis by blast
qed

text \<open>
  C9.  The branch that reads the map and the branch that parses the path disagree on paths
  that match the pattern.  For the 30th of February the cached file gets the 2nd of March
  and the file that is not cached gets \<open>null\<close>; for the year 0025 the cached file gets 1925;
  and five hours west of UTC the cached file of the 7th of March displays the 6th, while
  the fallback displays the 7th.
\<close>

theorem cache_and_fallback_differ:
  "getDailyNoteDate utcZone oddService ''2025/02. Feb/30 Sun.md'' = Some (Moment 1740873600000)
   \<and> format_date (Moment 1740873600000) = ''2025-03-02''
   \<and> getDailyNoteDate utcZone marService ''2025/02. Feb/30 Sun.md'' = None
   \<and> getDailyNoteDate utcZone oddService ''0025/03. Mar/07 Fri.md'' = Some (Moment (- 1414454400000))
   \<and> format_date (Moment (- 1414454400000)) = ''1925-03-07''
   \<and> getDailyNoteDate utcZone marService ''0025/03. Mar/07 Fri.md'' = Some (Moment (- 61372598400000))
   \<and> format_date (Moment (- 61372598400000)) = ''0025-03-07''
   \<and> getDailyNoteDate westZone marService ''2025/03. Mar/07 Fri.md'' = Some (Moment 1741287600000)
   \<and> format_date (Moment 1741287600000) = ''2025-03-06''
   \<and> getDailyNoteDate westZone oddService ''2025/03. Mar/07 Fri.md'' = Some (Moment 1741305600000)
   \<and> format_date (Moment 1741305600000) = ''2025-03-07''"
  by (simp add: getDailyNoteDate_def oddService_def oddFiles_def marService_def marFiles_def
      rebuild_success leafOf_odd test_odd leafOf_mar test_mar pathMatch_odd pathMatch_mar
      parse_examples format_odd format_mar format_year25 moment_local_def utcZone_def
      westZone_def isValid_def)

subsection \<open>Previous and next note\<close>

lemma findIndex_none:
  assumes "\<forall>w\<in>set ws. validTime w \<and> \<not> matchesDay tz d w \<and> \<not> isContainer w"
  shows "findIndex_loop tz d ws i = Inr (- 1)"
  using assms
proof (induction ws arbitrary: i)
  case Nil
  show ?case by simp
next
  case (Cons w ws)
  then have "validTime w" "\<not> matchesDay tz d w" "\<not> isContainer w" by auto
  then obtain t where "time w = Inr (Some t)" "\<not> isSameDay tz t d"
    by (auto simp: validTime_def timestamp_def getTimeOf_def matchesDay_def
        split: sum.splits option.splits)
  with Cons show ?case by simp
qed

lemma findIndex_first:
  assumes "matchesDay tz d w"
  shows "findIndex_loop tz d (w # ws) i = Inr i"
  using assms
  by (auto simp: matchesDay_def split: sum.splits option.splits)

lemma findIndex_last:
  assumes "\<forall>w\<in>set ws. validTime w \<and> \<not> matchesDay tz d w \<and> \<not> isContainer w" "matchesDay tz d l"
  shows "findIndex_loop tz d (ws @ [l]) i = Inr (i + int (length ws))"
  using assms
proof (induction ws arbitrary: i)
  case Nil
  then show ?case by (simp add: findIndex_first del: findIndex_loop.simps)
next
  case (Cons w ws)
  then have "validTime w" "\<not> matchesDay tz d w" "\<not> isContainer w" by auto
  then obtain t where "time w = Inr (Some t)" "\<not> isSameDay tz t d"
    by (auto simp: validTime_def timestamp_def getTimeOf_def matchesDay_def
        split: sum.splits option.splits)
  with Cons show ?case by simp
qed

text \<open>
  C6, as amended.  Let \<open>ws\<close> be the chronological leaf sequence.  Asked for the note before
  a date on the calendar day of the first leaf, \<open>getPreviousDailyNote\<close> returns none.  Asked
  for the note after a date on the calendar day of the last leaf, \<open>getNextDailyNote\<close>
  returns none, provided no earlier leaf of the sequence is on that day.  When no leaf is on
  the day of the date, both return none.
\<close>

theorem adjacent_boundaries:
  "\<exists>ws. traverse (timewalk svc) Future Leaves False = Inr ws
     \<and> (ws \<noteq> [] \<longrightarrow> matchesDay tz d (hd ws) \<longrightarrow> getPreviousDailyNote tz svc d = Inr None)
     \<and> (ws \<noteq> [] \<longrightarrow> matchesDay tz d (last ws)
           \<longrightarrow> (\<forall>w\<in>set (butlast ws). \<not> matchesDay tz d w)
           \<longrightarrow> getNextDailyNote tz svc d = Inr None)
     \<and> ((\<forall>w\<in>set ws. \<not> matchesDay tz d w)
           \<longrightarrow> getPreviousDailyNote tz svc d = Inr None \<and> getNextDailyNote tz svc d = Inr None)"
proof -
  from traverse_leaves_returns obtain ws where
    t: "traverse (timewalk svc) Future Leaves False = Inr ws"
    and v: "\<forall>w\<in>set ws. validTime w \<and> \<not> isContainer w" by blast
  have a: "getPreviousDailyNote tz svc d = Inr None" if "ws \<noteq> []" "matchesDay tz d (hd ws)"
  proof -
    from that obtain w rest where "ws = w # rest" "matchesDay tz d w" by (cases ws) auto
    then show ?thesis
      using t by (simp add: getPreviousDailyNote_def getSortedWaypoints_def findIndex_first
          del: findIndex_loop.simps)
  qed
  have b: "getNextDailyNote tz svc d = Inr None"
    if "ws \<noteq> []" "matchesDay tz d (last ws)" "\<forall>w\<in>set (butlast ws). \<not> matchesDay tz d w"
  proof -
    have ws: "ws = butlast ws @ [last ws]" using that(1) by simp
    have "\<forall>w\<in>set (butlast ws). validTime w \<and> \<not> matchesDay tz d w \<and> \<not> isContainer w"
      using v that(3) by (auto dest: in_set_butlastD)
    from findIndex_last[OF this that(2), of 0]
    have "findIndex_loop tz d ws 0 = Inr (int (length (butlast ws)))"
      using ws by simp
    then show ?thesis
      using t that(1) by (simp add: getNextDailyNote_def getSortedWaypoints_def)
  qed
  have c: "getPreviousDailyNote tz svc d = Inr None \<and> getNextDailyNote tz svc d = Inr None"
    if "\<forall>w\<in>set ws. \<not> matchesDay tz d w"
  proof -
    have "findIndex_loop tz d ws 0 = Inr (- 1)"
      using findIndex_none[of ws tz d 0] v that by blast
    then show ?thesis
      using t by (simp add: getNextDailyNote_def getPreviousDailyNote_def getSortedWaypoints_def)
  qed
  from t a b c show ?thesis by blast
qed

lemma matches_jan:
  "matchesDay utcZone (Date 1735689600000) jan01"
  "matchesDay utcZone (Date 1736035200000) jan05"
  "\<not> matchesDay utcZone (Date 1736035200000) jan01"
  "\<not> matchesDay utcZone (Date 1736035200000) jan02"
  "\<not> matchesDay utcZone (Date 1735862400000) jan01"
  "\<not> matchesDay utcZone (Date 1735862400000) jan02"
  "\<not> matchesDay utcZone (Date 1735862400000) jan05"
  by code_simp+

theorem adjacent_boundaries_witness:
  "traverse (timewalk janService) Future Leaves False = Inr [jan01, jan02, jan05]
   \<and> matchesDay utcZone (Date 1735689600000) (hd [jan01, jan02, jan05])
   \<and> getPreviousDailyNote utcZone janService (Date 1735689600000) = Inr None
   \<and> matchesDay utcZone (Date 1736035200000) (last [jan01, jan02, jan05])
   \<and> getNextDailyNote utcZone janService (Date 1736035200000) = Inr None
   \<and> getPreviousDailyNote utcZone janService (Date 1735862400000) = Inr None
   \<and> getNextDailyNote utcZone janService (Date 1735862400000) = Inr None"
proof -
  note t = traverse_janService
  from adjacent_boundaries[of janService utcZone "Date 1735689600000"] t
  have a: "getPreviousDailyNote utcZone janService (Date 1735689600000) = Inr None"
    by (auto simp: matches_jan)
  from adjacent_boundaries[of janService utcZone "Date 1736035200000"] t
  have b: "getNextDailyNote utcZone janService (Date 1736035200000) = Inr None"
    by (auto simp: matches_jan)
  from adjacent_boundaries[of janService utcZone "Date 1735862400000"] t
  have c: "getPreviousDailyNote utcZone janService (Date 1735862400000) = Inr None
         \<and> getNextDailyNote utcZone janService (Date 1735862400000) = Inr None"
    by (auto simp: matches_jan)
  from t a b c show ?thesis by (simp add: matches_jan)
qed

text \<open>
  C6 as stated fails when two leaves are on the last leaf's calendar day: \<open>findIndex\<close>
  stops at the first of them, and the note "after" that date is the second.
\<close>

theorem next_of_last_date_not_none:
  "traverse (timewalk dupService) Future Leaves False
     = Inr [LeafWaypoint ''a/2025/01. Jan/02 Thu.md'' (Some (Date 1735776000000)),
            LeafWaypoint ''b/2025/01. Jan/02 Thu.md'' (Some (Date 1735776000000))]
   \<and> getNextDailyNote utcZone dupService (Date 1735776000000)
     = Inr (Some ''b/2025/01. Jan/02 Thu.md'')"
  using traverse_dupService
  by (simp add: getNextDailyNote_def getSortedWaypoints_def dupA_def dupB_def isSameDay_refl)

section \<open>Properties of the timeline\<close>

lemma absFloor_days: "absFloor (a * msPerDay - b * msPerDay) msPerDay = a - b"
proof -
  have "a * msPerDay - b * msPerDay = (a - b) * msPerDay" by (simp add: algebra_simps)
  moreover have "- ((a - b) * msPerDay) = (b - a) * msPerDay" by (simp add: algebra_simps)
  ultimately show ?thesis
    by (simp add: absFloor_def msPerDay_def del: mult_minus_left)
qed

lemma noteOf_simps:
  "isNote (noteOf a c w)" "width (noteOf a c w) = 1"
  "date (noteOf a c w) = Moment (dayNum w * msPerDay)"
  by (simp_all add: noteOf_def isNote_def width_def)

lemma gapOf_simps:
  "\<not> isNote (gapOf k n)" "width (gapOf k n) = n" "date (gapOf k n) = Moment (k * msPerDay)"
  by (simp_all add: gapOf_def isNote_def width_def)

lemma timeline_loop_single:
  assumes "midnight w"
  shows "timeline_loop a c [w] = [noteOf a c w]"
  using midnight_time[OF assms]
  by (simp add: noteOf_def moment_utc_def Let_def)

lemma timeline_loop_step:
  assumes "midnight w" "midnight w2"
  shows "timeline_loop a c (w # w2 # later) =
           noteOf a c w
             # (if dayNum w2 - dayNum w - 1 > 0
                then [gapOf (dayNum w + 1) (dayNum w2 - dayNum w - 1)] else [])
             @ timeline_loop a c (w2 # later)"
proof -
  have "timeline_loop a c (w # w2 # later) =
     (let waypointDate = Moment (dayNum w * msPerDay);
          nextDate = Moment (dayNum w2 * msPerDay);
          daysBetween = num_sub (diff_days nextDate waypointDate) (Some 1)
      in noteOf a c w #
         (case daysBetween of None \<Rightarrow> []
          | Some n \<Rightarrow> if n > 0 then [\<lparr>item_type = Gap, date = add_days waypointDate 1,
                                 item_file = None, gapCount = Some n,
                                 isActive = None, isCurrent = None\<rparr>] else [])
         @ timeline_loop a c (w2 # later))"
    using midnight_time(1)[OF assms(1)] midnight_time(1)[OF assms(2)]
    by (subst timeline_loop.simps) (simp add: noteOf_def moment_utc_def Let_def del: timeline_loop.simps)
  then show ?thesis
    by (simp add: diff_days_def absFloor_days num_sub_def add_days_def gapOf_def distrib_right
        del: timeline_loop.simps)
qed

text \<open>
  The loop on leaves dated at midnight of strictly increasing days: the items stand for
  the days from the first through the last leaf, and the notes are those of the leaves.
\<close>

lemma timeline_core:
  assumes "ws \<noteq> []" "\<forall>w\<in>set ws. midnight w" "sorted_wrt (<) (map dayNum ws)"
  shows "spans (dayNum (hd ws)) (timeline_loop a c ws) = [dayNum (hd ws) .. dayNum (last ws)]
       \<and> aligned (dayNum (hd ws)) (timeline_loop a c ws)
       \<and> filter isNote (timeline_loop a c ws) = map (noteOf a c) ws
       \<and> timeline_loop a c ws \<noteq> []
       \<and> hd (timeline_loop a c ws) = noteOf a c (hd ws)
       \<and> last (timeline_loop a c ws) = noteOf a c (last ws)"
  using assms
proof (induction ws rule: list_nonempty_induct)
  case (single w)
  then show ?case
    by (simp add: timeline_loop_single noteOf_simps del: timeline_loop.simps)
next
  case (cons w ws)
  then obtain w2 later where ws: "ws = w2 # later" by (cases ws) auto
  have m: "midnight w" "midnight w2" using cons.prems ws by auto
  have lt: "dayNum w < dayNum w2" using cons.prems ws by auto
  have le: "dayNum w2 \<le> dayNum (last ws)"
  proof (cases later)
    case Nil
    with ws show ?thesis by simp
  next
    case (Cons x xs)
    then have "last ws \<in> set later" using ws by auto
    then show ?thesis using cons.prems(2) ws by auto
  qed
  have IH: "spans (dayNum w2) (timeline_loop a c ws) = [dayNum w2 .. dayNum (last ws)]"
    "aligned (dayNum w2) (timeline_loop a c ws)"
    "filter isNote (timeline_loop a c ws) = map (noteOf a c) ws"
    "timeline_loop a c ws \<noteq> []"
    "last (timeline_loop a c ws) = noteOf a c (last ws)"
    using cons.IH cons.prems ws by auto
  have step: "timeline_loop a c (w # ws) =
           noteOf a c w
             # (if dayNum w2 - dayNum w - 1 > 0
                then [gapOf (dayNum w + 1) (dayNum w2 - dayNum w - 1)] else [])
             @ timeline_loop a c ws"
    unfolding ws by (rule timeline_loop_step[OF m])
  have up: "[dayNum w .. dayNum (last ws)] = dayNum w # [dayNum w + 1 .. dayNum w2 - 1] @ [dayNum w2 .. dayNum (last ws)]"
  proof -
    have "[dayNum w .. dayNum (last ws)] = dayNum w # [dayNum w + 1 .. dayNum (last ws)]"
      using lt le by (simp add: upto_rec1)
    also have "[dayNum w + 1 .. dayNum (last ws)] = [dayNum w + 1 .. dayNum w2 - 1] @ [dayNum w2 .. dayNum (last ws)]"
      using lt le upto_split1[of "dayNum w + 1" "dayNum w2" "dayNum (last ws)"] by simp
    finally show ?thesis .
  qed
  show ?case
  proof (cases "dayNum w2 - dayNum w - 1 > 0")
    case True
    then show ?thesis
      using IH up cons.hyps
      by (simp add: step noteOf_simps gapOf_simps del: timeline_loop.simps)
  next
    case False
    then have "dayNum w2 = dayNum w + 1" using lt by simp
    then show ?thesis
      using IH up cons.hyps
      by (simp add: step noteOf_simps gapOf_simps del: timeline_loop.simps)
  qed
qed

lemma dayNum_less:
  assumes "midnight a" "midnight b" "msOf a < msOf b"
  shows "dayNum a < dayNum b"
  using assms midnight_time(2)[of a] midnight_time(2)[of b]
  by (simp add: msPerDay_def)

lemma strict_days:
  assumes "\<forall>w\<in>set ws. midnight w" "sorted_wrt (<) (map msOf ws)"
  shows "sorted_wrt (<) (map dayNum ws)"
  using assms
  by (induction ws) (auto simp: dayNum_less)

lemma dayOf_midnight: "dayOf (Moment (k * msPerDay)) = k"
  by (simp add: dayOf_def msPerDay_def)

text \<open>
  C1, as amended.  For every graph that \<open>rebuild\<close> has built, whose chronological leaf
  sequence is not empty and has no two leaves with the same date: \<open>buildGlobalTimeline\<close>
  returns items that start and end with a note, that stand for every calendar day from the
  first note's date through the last note's date exactly once and in order, and each of
  which is dated at the first day it stands for.
\<close>

theorem timeline_covers_range:
  assumes "traverse (timewalk (snd (rebuild svc (Inr allFiles)))) Future Leaves False = Inr waypoints"
    and "waypoints \<noteq> []" and "noTies waypoints"
  shows "\<exists>items. buildGlobalTimeline (snd (rebuild svc (Inr allFiles))) activeDate currentDate = Inr items
           \<and> noOuterGap items \<and> coversRange items \<and> aligned (firstNoteDay items) items"
proof -
  let ?root = "timewalk (snd (rebuild svc (Inr allFiles)))"
  let ?xs = "survivors ?root False"
  have mid: "\<forall>w\<in>set ?xs. midnight w" using rebuild_survivors_midnight by blast
  then have v: "\<forall>w\<in>set ?xs. validTime w" using midnight_time(3) by blast
  have "traverse ?root Future Leaves False = Inr (sort_key msOf ?xs)"
    using sortNodes_valid[OF v, of Future] by (simp add: traverse_def survivors_def)
  with assms(1) have ws: "waypoints = sort_key msOf ?xs" by simp
  have m: "\<forall>w\<in>set waypoints. midnight w" using mid ws by simp
  then have vw: "\<forall>w\<in>set waypoints. validTime w" using midnight_time(3) by blast
  have "sorted (map msOf waypoints)" using ws by simp
  moreover have "distinct (map msOf waypoints)"
    using assms(3) noTies_valid[OF vw] by simp
  ultimately have "sorted_wrt (<) (map msOf waypoints)"
    by (simp add: strict_sorted_iff)
  then have s: "sorted_wrt (<) (map dayNum waypoints)" using m by (rule strict_days[rotated])
  let ?items = "timeline_loop activeDate currentDate waypoints"
  note core = timeline_core[OF assms(2) m s, of activeDate currentDate]
  have b: "buildGlobalTimeline (snd (rebuild svc (Inr allFiles))) activeDate currentDate = Inr ?items"
    using assms(1,2) by (simp add: buildGlobalTimeline_def)
  have f: "firstNoteDay ?items = dayNum (hd waypoints)"
    using core assms(2) by (simp add: firstNoteDay_def hd_map noteOf_simps dayOf_midnight)
  have l: "lastNoteDay ?items = dayNum (last waypoints)"
    using core assms(2) by (simp add: lastNoteDay_def last_map noteOf_simps dayOf_midnight)
  have "noOuterGap ?items" using core by (simp add: noOuterGap_def noteOf_simps)
  moreover have "coversRange ?items" using core f l by (simp add: coversRange_def)
  moreover have "aligned (firstNoteDay ?items) ?items" using core f by simp
  ultimately show ?thesis using b by blast
qed

lemma noTies_jan: "noTies [jan01, jan02, jan05]"
  by (simp add: noTies_def jan01_def jan02_def jan05_def timeNum_def timestamp_def getTimeOf_def
      getTime_def strict_eq_def)

theorem timeline_covers_range_witness:
  "traverse (timewalk (snd (rebuild emptyService (Inr janFiles)))) Future Leaves False
      = Inr [jan01, jan02, jan05]
   \<and> [jan01, jan02, jan05] \<noteq> [] \<and> noTies [jan01, jan02, jan05]
   \<and> (\<exists>items. buildGlobalTimeline (snd (rebuild emptyService (Inr janFiles)))
                  (Moment 1735776000000) (Moment 0) = Inr items
           \<and> noOuterGap items \<and> coversRange items \<and> aligned (firstNoteDay items) items)"
proof -
  have t: "traverse (timewalk (snd (rebuild emptyService (Inr janFiles)))) Future Leaves False
      = Inr [jan01, jan02, jan05]"
    using traverse_janService by (simp add: janService_def)
  have n: "[jan01, jan02, jan05] \<noteq> []" by simp
  from timeline_covers_range[OF t n noTies_jan, of "Moment 1735776000000" "Moment 0"] t n noTies_jan
  show ?thesis by blast
qed

text \<open>
  C1 as stated fails when two files have the same date: the timeline has two notes of
  that day, which stand for two days, while the range from the first through the last note's
  date is that one day.
\<close>

theorem duplicate_day_not_covered:
  "traverse (timewalk dupService) Future Leaves False
     = Inr [LeafWaypoint ''a/2025/01. Jan/02 Thu.md'' (Some (Date 1735776000000)),
            LeafWaypoint ''b/2025/01. Jan/02 Thu.md'' (Some (Date 1735776000000))]
   \<and> buildGlobalTimeline dupService (Moment 0) (Moment 0)
     = Inr [\<lparr>item_type = Note, date = Moment 1735776000000,
             item_file = Some ''a/2025/01. Jan/02 Thu.md'', gapCount = None,
             isActive = Some False, isCurrent = Some False\<rparr>,
            \<lparr>item_type = Note, date = Moment 1735776000000,
             item_file = Some ''b/2025/01. Jan/02 Thu.md'', gapCount = None,
             isActive = Some False, isCurrent = Some False\<rparr>]
   \<and> \<not> coversRange
        [\<lparr>item_type = Note, date = Moment 1735776000000,
             item_file = Some ''a/2025/01. Jan/02 Thu.md'', gapCount = None,
             isActive = Some False, isCurrent = Some False\<rparr>,
            \<lparr>item_type = Note, date = Moment 1735776000000,
             item_file = Some ''b/2025/01. Jan/02 Thu.md'', gapCount = None,
             isActive = Some False, isCurrent = Some False\<rparr>]"
proof -
  have "buildGlobalTimeline dupService (Moment 0) (Moment 0)
     = Inr [\<lparr>item_type = Note, date = Moment 1735776000000,
             item_file = Some ''a/2025/01. Jan/02 Thu.md'', gapCount = None,
             isActive = Some False, isCurrent = Some False\<rparr>,
            \<lparr>item_type = Note, date = Moment 1735776000000,
             item_file = Some ''b/2025/01. Jan/02 Thu.md'', gapCount = None,
             isActive = Some False, isCurrent = Some False\<rparr>]"
    using traverse_dupService
    by (simp add: buildGlobalTimeline_def dupA_def dupB_def moment_utc_def Let_def
        format_jan02 format_epoch diff_days_def absFloor_def num_sub_def msPerDay_def)
  moreover have "\<not> coversRange
        [\<lparr>item_type = Note, date = Moment 1735776000000,
             item_file = Some ''a/2025/01. Jan/02 Thu.md'', gapCount = None,
             isActive = Some False, isCurrent = Some False\<rparr>,
            \<lparr>item_type = Note, date = Moment 1735776000000,
             item_file = Some ''b/2025/01. Jan/02 Thu.md'', gapCount = None,
             isActive = Some False, isCurrent = Some False\<rparr>]"
    by (simp add: coversRange_def firstNoteDay_def lastNoteDay_def isNote_def dayOf_def
        width_def msPerDay_def)
  ultimately show ?thesis using traverse_dupService by (simp add: dupA_def dupB_def)
qed

text \<open>
  C8.  For the graph built from files dated 2025-01-01, 2025-01-02 and 2025-01-05 and an
  active date that displays as 2025-01-02, the timeline is: the note of 01-01, the note of
  01-02 with \<open>isActive\<close> true, a gap dated 01-03 with \<open>gapCount\<close> 2, and the note of 01-05.
\<close>

theorem timeline_january:
  assumes "format_date activeDate = ''2025-01-02''"
  shows "buildGlobalTimeline janService activeDate currentDate =
     Inr [\<lparr>item_type = Note, date = Moment 1735689600000,
           item_file = Some ''2025/01. Jan/01 Wed.md'', gapCount = None,
           isActive = Some False,
           isCurrent = Some (''2025-01-01'' = format_date currentDate)\<rparr>,
          \<lparr>item_type = Note, date = Moment 1735776000000,
           item_file = Some ''2025/01. Jan/02 Thu.md'', gapCount = None,
           isActive = Some True,
           isCurrent = Some (''2025-01-02'' = format_date currentDate)\<rparr>,
          \<lparr>item_type = Gap, date = Moment 1735862400000, item_file = None,
           gapCount = Some 2, isActive = None, isCurrent = None\<rparr>,
          \<lparr>item_type = Note, date = Moment 1736035200000,
           item_file = Some ''2025/01. Jan/05 Sun.md'', gapCount = None,
           isActive = Some False,
           isCurrent = Some (''2025-01-05'' = format_date currentDate)\<rparr>]
     \<and> format_date (Moment 1735689600000) = ''2025-01-01''
     \<and> format_date (Moment 1735776000000) = ''2025-01-02''
     \<and> format_date (Moment 1735862400000) = ''2025-01-03''
     \<and> format_date (Moment 1736035200000) = ''2025-01-05''"
  using traverse_janService assms
  by (simp add: buildGlobalTimeline_def jan01_def jan02_def jan05_def moment_utc_def Let_def
      format_jan format_jan02 diff_days_def absFloor_def num_sub_def add_days_def msPerDay_def)

theorem timeline_january_witness:
  "format_date (Moment 1735776000000) = ''2025-01-02''
   \<and> buildGlobalTimeline janService (Moment 1735776000000) (Moment 1735776000000) =
     Inr [\<lparr>item_type = Note, date = Moment 1735689600000,
           item_file = Some ''2025/01. Jan/01 Wed.md'', gapCount = None,
           isActive = Some False, isCurrent = Some False\<rparr>,
          \<lparr>item_type = Note, date = Moment 1735776000000,
           item_file = Some ''2025/01. Jan/02 Thu.md'', gapCount = None,
           isActive = Some True, isCurrent = Some True\<rparr>,
          \<lparr>item_type = Gap, date = Moment 1735862400000, item_file = None,
           gapCount = Some 2, isActive = None, isCurrent = None\<rparr>,
          \<lparr>item_type = Note, date = Moment 1736035200000,
           item_file = Some ''2025/01. Jan/05 Sun.md'', gapCount = None,
           isActive = Some False, isCurrent = Some False\<rparr>]"
  using timeline_january[OF format_jan02, of "Moment 1735776000000"] format_jan02
  by simp

end
